theory Spec2Isabelle
  imports
    Complex_Main
    "HOL-Library.Char_ord"
    "HOL-Library.List_Lexorder"
    "HOL-Library.Multiset"
begin

section \<open>GenomePlot: the chromosome model, stacking, rasterizing and band geometry\<close>

text \<open>
  The development follows the consolidated revision of the plotting module (the last
  revision in the sources: class \<open>Chromosome\<close>, \<open>stackChromosomes\<close>,
  \<open>filterChromosome\<close>, \<open>addBedData\<close>, \<open>drawGenomePlot\<close>).

  Conventions of the embedding.
  \<^item> Genomic coordinates are the results of \<open>parseInt\<close> and are integers (\<open>int\<close>);
    a \<open>NaN\<close> coordinate is written out where the code can produce one (\<open>addBedData\<close>).
  \<^item> Pixel sizes, the scale and opacities are JavaScript numbers; they are modelled
    exactly as rationals (\<open>rat\<close>), so \<open>Math.round x\<close> is \<open>\<lfloor>x + 1/2\<rfloor>\<close>.
  \<^item> Strings are compared as JavaScript compares them, code unit by code unit
    (the lexicographic order on \<open>char list\<close>).
  \<^item> Text is ASCII, one \<open>char\<close> for each code unit; a name that is absent is the
    empty string.
  \<^item> An exception thrown by the code is the value \<open>Inl TypeError\<close>.
\<close>

subsection \<open>Regions\<close>

datatype error = TypeError

text \<open>
  The class \<open>ChromRegion\<close> is imported from the package \<open>@givengine/chrom-region\<close>;
  its fields are the ones the sources pass to its constructor and read back.
\<close>

record region =
  chr :: string
  start :: int
  end' :: int
  name :: string

text \<open>
  Modelled from the spec: \<open>ChromRegion.compare\<close> (the package
  \<open>@givengine/chrom-region\<close> is not part of the sources). The spec orders
  regions by chromosome name, then start, then end; the comparator returns a negative
  number, zero or a positive number as \<open>Array.prototype.sort\<close> expects.
\<close>

definition compare :: "('a::type) region_scheme \<Rightarrow> 'a region_scheme \<Rightarrow> int" where
  "compare region1 region2 =
     (if chr region1 = chr region2
      then (if start region1 = start region2
            then (if end' region1 = end' region2 then 0
                  else if end' region1 > end' region2 then 1 else - 1)
            else if start region1 > start region2 then 1 else - 1)
      else if chr region1 > chr region2 then 1 else - 1)"

text \<open>
  \<open>Array.prototype.sort\<close> with a comparator: the array is rearranged so that the
  comparator is never positive on an element and a later one; elements the comparator
  rates equal keep their order (the sort of the engine is stable).
\<close>

fun insort_cmp :: "('a \<Rightarrow> 'a \<Rightarrow> int) \<Rightarrow> 'a \<Rightarrow> 'a list \<Rightarrow> 'a list" where
  "insort_cmp cmp x [] = [x]"
| "insort_cmp cmp x (y # ys) =
     (if cmp x y \<le> 0 then x # y # ys else y # insort_cmp cmp x ys)"

definition sort_cmp :: "('a \<Rightarrow> 'a \<Rightarrow> int) \<Rightarrow> 'a list \<Rightarrow> 'a list" where
  "sort_cmp cmp xs = foldr (insort_cmp cmp) xs []"

subsection \<open>Chromosomes\<close>

text \<open>
  A cytoband is a \<open>ChromRegion\<close> with the extra property \<open>gieStain\<close>
  (\<open>parseCytobandIdeoFile\<close>). The stain is the fifth token of the line and is
  \<open>undefined\<close> (\<open>None\<close>) when the line has fewer tokens.
\<close>

record cytoband = region +
  gieStain :: "string option"

text \<open>
  A JavaScript array that is only written by index: the values stored under integer
  keys and the \<open>length\<close> property. A hole and a key that was never written read as
  \<open>undefined\<close> (\<open>None\<close>). Writing at a non-negative index \<open>i\<close> beyond the end
  extends the array to length \<open>i + 1\<close>; writing at a negative key stores an ordinary
  property and leaves the length alone. Bin indices are taken to be below the
  array-index limit \<open>2^32 - 1\<close> of the language.
\<close>

record jsarray =
  cells :: "int \<rightharpoonup> int"
  alength :: nat

definition emptyArray :: jsarray where
  "emptyArray = \<lparr>cells = Map.empty, alength = 0\<rparr>"

definition arraySet :: "jsarray \<Rightarrow> int \<Rightarrow> int \<Rightarrow> jsarray" where
  "arraySet a i v =
     \<lparr>cells = (cells a)(i \<mapsto> v),
      alength = (if 0 \<le> i then max (alength a) (nat i + 1) else alength a)\<rparr>"

text \<open>
  The class \<open>Chromosome\<close>. The cytoband objects are shared: \<open>centromere\<close> refers to
  one of the objects held in the array \<open>cytobands\<close>, and \<open>concat\<close> mutates it in
  place. So the objects live in the store \<open>bands\<close> (an object's reference is its
  position, in order of arrival), the array \<open>cytobands\<close> holds references, and
  \<open>centromere\<close> is a reference or \<open>null\<close>. \<open>data\<close> maps a label to its array of
  counts.
\<close>

record chromosome = region +
  bands :: "cytoband list"
  cytobands :: "nat list"
  data :: "string \<rightharpoonup> jsarray"
  centromere :: "nat option"

definition Chromosome :: "string \<Rightarrow> int \<Rightarrow> chromosome" where
  "Chromosome nm size' =
     \<lparr>chr = nm, start = 0, end' = size', name = nm,
      bands = [], cytobands = [], data = Map.empty, centromere = None\<rparr>"

text \<open>The cytoband objects in the order of the array \<open>cytobands\<close>.\<close>

definition cytobandList :: "chromosome \<Rightarrow> cytoband list" where
  "cytobandList c = map (\<lambda>r. bands c ! r) (cytobands c)"

subsection \<open>Stacking\<close>

text \<open>
  \<open>stackChromosomes\<close>: the list is sorted, \<open>totalLength\<close> is the length rounded up to
  an even number, and the \<open>forEach\<close> loop either pushes a new one-element stack or
  pushes the chromosome onto the stack at \<open>totalLength - 1 - index\<close>. Reading a stack
  that does not exist gives \<open>undefined\<close>, and \<open>undefined.push\<close> throws.
\<close>

fun stackLoop :: "nat \<Rightarrow> nat \<Rightarrow> 'a list \<Rightarrow> 'a list list \<Rightarrow> error + 'a list list" where
  "stackLoop totalLength index [] stack = Inr stack"
| "stackLoop totalLength index (chromosome # rest) stack =
     (if 2 * index < totalLength
      then stackLoop totalLength (Suc index) rest (stack @ [[chromosome]])
      else (let j = int totalLength - 1 - int index in
            if 0 \<le> j \<and> nat j < length stack
            then stackLoop totalLength (Suc index) rest
                   (stack[nat j := stack ! nat j @ [chromosome]])
            else Inl TypeError))"

definition stackChromosomes :: "('a::type) region_scheme list \<Rightarrow> error + 'a region_scheme list list" where
  "stackChromosomes chromosomeList =
     (let sorted = sort_cmp compare chromosomeList;
          totalLength = ((length sorted + 1) div 2) * 2
      in stackLoop totalLength 0 sorted [])"

subsection \<open>Name classes and filtering\<close>

text \<open>
  The getters \<open>isRegular\<close> and \<open>isMitochondrial\<close> test the name against the
  regular expressions \<open>/(chrUn)|_|(chrM)/\<close> (a match anywhere in the name) and
  \<open>/^chrM$/i\<close> (the whole name, letters of either case).
\<close>

fun startsWith :: "string \<Rightarrow> string \<Rightarrow> bool" where
  "startsWith [] s = True"
| "startsWith (p # ps) [] = False"
| "startsWith (p # ps) (c # cs) = (p = c \<and> startsWith ps cs)"

fun contains :: "string \<Rightarrow> string \<Rightarrow> bool" where
  "contains p [] = startsWith p []"
| "contains p (c # cs) = (startsWith p (c # cs) \<or> contains p cs)"

definition lowerCode :: "char \<Rightarrow> nat" where
  "lowerCode c = (let n = of_char c in if 65 \<le> n \<and> n \<le> 90 then n + 32 else n)"

definition equalsIgnoreCase :: "string \<Rightarrow> string \<Rightarrow> bool" where
  "equalsIgnoreCase p s = (map lowerCode p = map lowerCode s)"

definition isRegular :: "('a::type) region_scheme \<Rightarrow> bool" where
  "isRegular c =
     (\<not> (contains ''chrUn'' (name c) \<or> contains ''_'' (name c) \<or> contains ''chrM'' (name c)))"

definition isMitochondrial :: "('a::type) region_scheme \<Rightarrow> bool" where
  "isMitochondrial c = equalsIgnoreCase ''chrM'' (name c)"

definition filterChromosome ::
    "('a::type) region_scheme list \<Rightarrow> bool \<Rightarrow> bool \<Rightarrow> 'a region_scheme list" where
  "filterChromosome chromosomes includeNonRegular includeMito =
     filter (\<lambda>chromosome.
        (includeNonRegular \<or> isRegular chromosome) \<or>
        (includeMito \<and> isMitochondrial chromosome))
       (sort_cmp compare chromosomes)"

subsection \<open>Rasterizing intervals\<close>

text \<open>\<open>Math.round\<close>: the nearest integer, a tie going up.\<close>

definition jsRound :: "rat \<Rightarrow> int" where
  "jsRound x = \<lfloor>x + 1 / 2\<rfloor>"

text \<open>
  \<open>initData\<close> gives a label an empty array unless the label has one (then it only
  warns).
\<close>

definition initData :: "string \<Rightarrow> chromosome \<Rightarrow> chromosome" where
  "initData label c =
     (if label \<in> dom (data c) then c
      else c\<lparr>data := (data c)(label \<mapsto> emptyArray)\<rparr>)"

text \<open>
  \<open>addData\<close>. The scale is the static property \<open>Chromosome.dataScale\<close>, here the
  first argument. The loop runs \<open>i\<close> from \<open>Math.round(start / scale)\<close> while
  \<open>i <= Math.round(end / scale)\<close>; each pass replaces \<open>data[label][i]\<close> by
  \<open>(data[label][i] || 0) + 1\<close>. When the label has no array, \<open>data[label]\<close> is
  \<open>undefined\<close> and the first pass throws. The scale is a positive number: it is
  \<open>1\<close> unless \<open>prepareChromosomeFromFile\<close> replaces it by a positive
  \<open>params.scale\<close>.
\<close>

function addDataLoop ::
    "rat \<Rightarrow> string \<Rightarrow> ('a::type) region_scheme \<Rightarrow> int \<Rightarrow> chromosome \<Rightarrow> error + chromosome" where
  "addDataLoop dataScale label bedEntry i c =
     (if i \<le> jsRound (of_int (end' bedEntry) / dataScale)
      then (case data c label of
              None \<Rightarrow> Inl TypeError
            | Some a \<Rightarrow>
                addDataLoop dataScale label bedEntry (i + 1)
                  (c\<lparr>data := (data c)(label \<mapsto>
                       arraySet a i ((case cells a i of None \<Rightarrow> 0 | Some v \<Rightarrow> v) + 1))\<rparr>))
      else Inr c)"
  by pat_completeness auto
termination
  by (relation "measure (\<lambda>(dataScale, label, bedEntry, i, c).
        nat (jsRound (of_int (end' bedEntry) / dataScale) + 1 - i))") auto

declare addDataLoop.simps [simp del]

definition addData ::
    "rat \<Rightarrow> string \<Rightarrow> ('a::type) region_scheme \<Rightarrow> chromosome \<Rightarrow> error + chromosome" where
  "addData dataScale label bedEntry c =
     (if chr c \<noteq> chr bedEntry then Inr c
      else addDataLoop dataScale label bedEntry
             (jsRound (of_int (start bedEntry) / dataScale)) c)"

text \<open>\<open>addData\<close> for each interval of a list, in order, on one chromosome.\<close>

fun addDataEach ::
    "rat \<Rightarrow> string \<Rightarrow> ('a::type) region_scheme list \<Rightarrow> chromosome \<Rightarrow> error + chromosome" where
  "addDataEach dataScale label [] c = Inr c"
| "addDataEach dataScale label (bedEntry # rest) c =
     (case addData dataScale label bedEntry c of
        Inl e \<Rightarrow> Inl e
      | Inr c' \<Rightarrow> addDataEach dataScale label rest c')"

text \<open>What a bin holds when it is read as a count: \<open>data[label][i] || 0\<close>.\<close>

definition binCount :: "jsarray \<Rightarrow> int \<Rightarrow> int" where
  "binCount a i = (case cells a i of None \<Rightarrow> 0 | Some v \<Rightarrow> v)"

subsection \<open>Cytobands and the centromere\<close>

text \<open>
  Modelled from the spec: \<open>ChromRegion.prototype.concat\<close> (the package
  \<open>@givengine/chrom-region\<close> is not part of the sources). The spec says that a later
  \<open>acen\<close> band is merged into the centromere by extending its end, never its start.
\<close>

definition concat' :: "cytoband \<Rightarrow> cytoband \<Rightarrow> cytoband" where
  "concat' this region' = this\<lparr>end' := max (end' this) (end' region')\<rparr>"

text \<open>
  \<open>addCytoband\<close>: push the band, make it the centromere or merge it into the
  centromere when its stain is \<open>acen\<close>, grow the chromosome, sort the array. A
  \<open>null\<close> argument skips the first block and throws at \<open>cytoband.end\<close>.
\<close>

fun addCytoband :: "cytoband option \<Rightarrow> chromosome \<Rightarrow> error + chromosome" where
  "addCytoband None c = Inl TypeError"
| "addCytoband (Some cytoband) c =
     (let r = length (bands c);
          c1 = c\<lparr>bands := bands c @ [cytoband], cytobands := cytobands c @ [r]\<rparr>;
          c2 = (if gieStain cytoband = Some ''acen''
                then (case centromere c1 of
                        Some k \<Rightarrow> c1\<lparr>bands := (bands c1)[k := concat' (bands c1 ! k) cytoband]\<rparr>
                      | None \<Rightarrow> c1\<lparr>centromere := Some r\<rparr>)
                else c1);
          c3 = (if end' c2 < end' cytoband then c2\<lparr>end' := end' cytoband\<rparr> else c2)
      in Inr (c3\<lparr>cytobands :=
                 sort_cmp (\<lambda>i j. compare (bands c3 ! i) (bands c3 ! j)) (cytobands c3)\<rparr>))"

text \<open>\<open>addCytoband\<close> for each band of a list, in order.\<close>

fun addCytobands :: "cytoband list \<Rightarrow> chromosome \<Rightarrow> error + chromosome" where
  "addCytobands [] c = Inr c"
| "addCytobands (cytoband # rest) c =
     (case addCytoband (Some cytoband) c of
        Inl e \<Rightarrow> Inl e
      | Inr c' \<Rightarrow> addCytobands rest c')"

text \<open>
  Every reference a chromosome holds points into its store. The constructor and
  \<open>addCytoband\<close> keep it so.
\<close>

definition wellFormed :: "chromosome \<Rightarrow> bool" where
  "wellFormed c =
     ((\<forall>r \<in> set (cytobands c). r < length (bands c)) \<and>
      (\<forall>k. centromere c = Some k \<longrightarrow> k < length (bands c)))"

text \<open>The centromere object, if there is one.\<close>

definition centromereBand :: "chromosome \<Rightarrow> cytoband option" where
  "centromereBand c = map_option (\<lambda>k. bands c ! k) (centromere c)"

subsection \<open>Band appearance and geometry\<close>

text \<open>
  \<open>getCytobandOpacity\<close>. The default branch matches the stain against
  \<open>/^gpos(\d+)/\<close>: the prefix \<open>gpos\<close> and then the longest run of decimal digits,
  at least one, whatever follows them. \<open>parseFloat\<close> of a digit string is its
  decimal value. When the stain is \<open>undefined\<close> no case of the switch matches and
  \<open>band.gieStain.match\<close> throws.
\<close>

definition isDigit :: "char \<Rightarrow> bool" where
  "isDigit c = (c \<in> set ''0123456789'')"

definition digitValue :: "char \<Rightarrow> nat" where
  "digitValue c = of_char c - of_char (CHR ''0'')"

definition parseDigits :: "string \<Rightarrow> nat" where
  "parseDigits ds = foldl (\<lambda>acc d. 10 * acc + digitValue d) 0 ds"

definition matchGpos :: "string \<Rightarrow> string option" where
  "matchGpos stain =
     (if startsWith ''gpos'' stain
      then (let digits = takeWhile isDigit (drop 4 stain)
            in if digits = [] then None else Some digits)
      else None)"

definition getCytobandOpacity :: "cytoband \<Rightarrow> error + rat" where
  "getCytobandOpacity band =
     (case gieStain band of
        None \<Rightarrow> Inl TypeError
      | Some stain \<Rightarrow>
          Inr (if stain = ''stalk'' then 3 / 4
               else if stain = ''gpos100'' \<or> stain = ''gvar'' then 1
               else if stain = ''gneg'' then 0
               else (case matchGpos stain of
                       None \<Rightarrow> 0
                     | Some digits \<Rightarrow>
                         (let gposValue = of_nat (parseDigits digits) / 100
                          in if gposValue < 0 then 0
                             else if gposValue > 1 then 1
                             else gposValue))))"

text \<open>
  The drawing surface: \<open>append\<close> adds an element with a tag, \<open>attr\<close> gives it
  attributes, and an element may have children. The drawing methods are modelled by
  the elements they append, in order.
\<close>

datatype attr = Num rat | Str string

datatype svg = Elem string "(string \<times> attr) list" "svg list"

record params =
  height :: rat
  inGap :: rat
  cytobandIdeo :: "string option"
  cytobandHeight :: rat
  chromosomeBarHeight :: rat
  labels :: "string list"
  args :: "string list"

definition cytobandColor :: string where
  "cytobandColor = ''#777777''"

text \<open>
  The elements \<open>drawArm\<close> appends for one band: nothing unless the arm overlaps the
  band; else the fill, and for the stains \<open>gvar\<close> and \<open>stalk\<close> the hatch fill after
  it. \<open>overlaps\<close> is a method of \<open>ChromRegion\<close> (not part of the sources) and is
  an argument here. An exception of \<open>getCytobandOpacity\<close> ends the drawing.
\<close>

definition drawBand ::
    "rat \<Rightarrow> (region \<Rightarrow> cytoband \<Rightarrow> bool) \<Rightarrow> rat \<Rightarrow> region \<Rightarrow> params \<Rightarrow> cytoband
      \<Rightarrow> error + svg list" where
  "drawBand dataScale overlaps y arm ps band =
     (if overlaps arm band
      then (case getCytobandOpacity band of
              Inl err \<Rightarrow> Inl err
            | Inr opacity \<Rightarrow>
                Inr ([Elem ''rect''
                        [(''x'', Num (of_int (start band) / dataScale)),
                         (''y'', Num y),
                         (''clip-path'', Str (''url(#'' @ name arm @ '')'')),
                         (''width'', Num (of_int (end' band - start band) / dataScale)),
                         (''height'', Num (cytobandHeight ps)),
                         (''stroke'', Str ''none''),
                         (''fill'', Str cytobandColor),
                         (''fill-opacity'', Num opacity)] []] @
                     (if gieStain band = Some ''gvar'' \<or> gieStain band = Some ''stalk''
                      then [Elem ''rect''
                              [(''x'', Num (of_int (start band) / dataScale)),
                               (''y'', Num y),
                               (''clip-path'', Str (''url(#'' @ name arm @ '')'')),
                               (''width'', Num (of_int (end' band - start band) / dataScale)),
                               (''height'', Num (cytobandHeight ps)),
                               (''stroke'', Str ''none''),
                               (''fill'', Str ''url(#hatch_fill)'')] []]
                      else [])))
      else Inr [])"

text \<open>The loop \<open>this.cytobands.forEach\<close> of \<open>drawArm\<close>.\<close>

fun drawBands ::
    "rat \<Rightarrow> (region \<Rightarrow> cytoband \<Rightarrow> bool) \<Rightarrow> rat \<Rightarrow> region \<Rightarrow> params \<Rightarrow> cytoband list
      \<Rightarrow> error + svg list" where
  "drawBands dataScale overlaps y arm ps [] = Inr []"
| "drawBands dataScale overlaps y arm ps (band # rest) =
     (case drawBand dataScale overlaps y arm ps band of
        Inl err \<Rightarrow> Inl err
      | Inr elems \<Rightarrow>
          (case drawBands dataScale overlaps y arm ps rest of
             Inl err \<Rightarrow> Inl err
           | Inr elems' \<Rightarrow> Inr (elems @ elems')))"

definition drawArm ::
    "rat \<Rightarrow> (region \<Rightarrow> cytoband \<Rightarrow> bool) \<Rightarrow> chromosome \<Rightarrow> rat \<Rightarrow> region \<Rightarrow> params
      \<Rightarrow> error + svg list" where
  "drawArm dataScale overlaps c y arm ps =
     (case drawBands dataScale overlaps y arm ps (cytobandList c) of
        Inl err \<Rightarrow> Inl err
      | Inr bandElems \<Rightarrow>
          Inr ([Elem ''rect''
                  [(''x'', Num (of_int (start arm) / dataScale)),
                   (''y'', Num y),
                   (''width'', Num (of_int (end' arm - start arm) / dataScale)),
                   (''height'', Num (cytobandHeight ps)),
                   (''fill'', Str ''#FFFFFF''),
                   (''rx'', Num (cytobandHeight ps * (1 / 4))),
                   (''ry'', Num (cytobandHeight ps * (1 / 4)))] [],
                Elem ''clipPath'' [(''id'', Str (name arm))]
                  [Elem ''rect''
                     [(''x'', Num (of_int (start arm) / dataScale)),
                      (''y'', Num y),
                      (''width'', Num (of_int (end' arm - start arm) / dataScale)),
                      (''height'', Num (cytobandHeight ps)),
                      (''rx'', Num (cytobandHeight ps * (1 / 4))),
                      (''ry'', Num (cytobandHeight ps * (1 / 4)))] []]] @
               bandElems @
               [Elem ''rect''
                  [(''x'', Num (of_int (start arm) / dataScale)),
                   (''y'', Num y),
                   (''width'', Num (of_int (end' arm - start arm) / dataScale)),
                   (''height'', Num (cytobandHeight ps)),
                   (''stroke'', Str ''#000000''),
                   (''stroke-width'', Num 1),
                   (''fill'', Str ''none''),
                   (''rx'', Num (cytobandHeight ps * (1 / 4))),
                   (''ry'', Num (cytobandHeight ps * (1 / 4)))] []]))"

text \<open>An element whose fill is the hatch pattern.\<close>

fun isHatchFill :: "svg \<Rightarrow> bool" where
  "isHatchFill (Elem tag attrs children) = ((''fill'', Str ''url(#hatch_fill)'') \<in> set attrs)"

text \<open>
  \<open>drawSelf\<close>. The local \<open>arms\<close> exists only when the chromosome has cytobands:
  two new regions around the centromere, or the chromosome itself. Without cytobands
  one bar is drawn.
\<close>

definition arms :: "chromosome \<Rightarrow> region list option" where
  "arms c =
     (if cytobands c \<noteq> []
      then Some (case centromere c of
                   Some k \<Rightarrow>
                     [\<lparr>chr = chr c, start = start c, end' = start (bands c ! k),
                       name = name c @ ''_arm_1''\<rparr>,
                      \<lparr>chr = chr c, start = end' (bands c ! k), end' = end' c,
                       name = name c @ ''_arm_2''\<rparr>]
                 | None \<Rightarrow>
                     [\<lparr>chr = chr c, start = start c, end' = end' c, name = name c\<rparr>])
      else None)"

text \<open>The loop \<open>arms.forEach\<close> of \<open>drawSelf\<close>.\<close>

fun drawArms ::
    "rat \<Rightarrow> (region \<Rightarrow> cytoband \<Rightarrow> bool) \<Rightarrow> chromosome \<Rightarrow> rat \<Rightarrow> params \<Rightarrow> region list
      \<Rightarrow> error + svg list" where
  "drawArms dataScale overlaps c y ps [] = Inr []"
| "drawArms dataScale overlaps c y ps (arm # rest) =
     (case drawArm dataScale overlaps c y arm ps of
        Inl err \<Rightarrow> Inl err
      | Inr elems \<Rightarrow>
          (case drawArms dataScale overlaps c y ps rest of
             Inl err \<Rightarrow> Inl err
           | Inr elems' \<Rightarrow> Inr (elems @ elems')))"

definition drawSelf ::
    "rat \<Rightarrow> (region \<Rightarrow> cytoband \<Rightarrow> bool) \<Rightarrow> chromosome \<Rightarrow> params \<Rightarrow> rat
      \<Rightarrow> error + svg list" where
  "drawSelf dataScale overlaps c ps y =
     (case arms c of
        Some as \<Rightarrow> drawArms dataScale overlaps c y ps as
      | None \<Rightarrow>
          Inr [Elem ''rect''
                 [(''x'', Num 0),
                  (''y'', Num y),
                  (''width'', Num (of_int (end' c) / dataScale)),
                  (''height'', Num (chromosomeBarHeight ps)),
                  (''fill'', Str ''#000000'')] []])"

subsection \<open>Reading interval files\<close>

text \<open>
  The string functions \<open>addBedData\<close> uses: \<open>trim\<close>, \<open>split('\n')\<close>,
  \<open>split(/\s+/)\<close> and \<open>parseInt\<close> (an optional sign, then hexadecimal digits after
  \<open>0x\<close> or else decimal digits; \<open>None\<close> is \<open>NaN\<close>).
\<close>

definition isSpace :: "char \<Rightarrow> bool" where
  "isSpace c = (c \<in> set [CHR 0x09, CHR 0x0A, CHR 0x0B, CHR 0x0C, CHR 0x0D, CHR '' ''])"

definition trim :: "string \<Rightarrow> string" where
  "trim s = rev (dropWhile isSpace (rev (dropWhile isSpace s)))"

fun splitLines :: "string \<Rightarrow> string list" where
  "splitLines [] = [[]]"
| "splitLines (c # cs) =
     (if c = CHR 0x0A then [] # splitLines cs
      else (case splitLines cs of
              [] \<Rightarrow> [[c]]
            | w # ws \<Rightarrow> (c # w) # ws))"

function splitSpaces :: "string \<Rightarrow> string list" where
  "splitSpaces s =
     (let w = takeWhile (\<lambda>c. \<not> isSpace c) s;
          r = dropWhile (\<lambda>c. \<not> isSpace c) s
      in if r = [] then [w] else w # splitSpaces (dropWhile isSpace r))"
  by pat_completeness auto
termination
proof (relation "measure length")
  show "wf (measure length)" by simp
next
  fix s x xa :: string
  assume x: "x = takeWhile (\<lambda>c. \<not> isSpace c) s"
    and xa: "xa = dropWhile (\<lambda>c. \<not> isSpace c) s" and ne: "xa \<noteq> []"
  have "isSpace (hd xa)" using xa ne hd_dropWhile[of "\<lambda>c. \<not> isSpace c" s] by auto
  then have "length (dropWhile isSpace xa) < length xa"
    using ne by (cases xa) (auto intro: le_imp_less_Suc length_dropWhile_le)
  moreover have "length xa \<le> length s" using xa by (simp add: length_dropWhile_le)
  ultimately show "(dropWhile isSpace xa, s) \<in> measure length" by simp
qed

declare splitSpaces.simps [simp del]

definition isHexDigit :: "char \<Rightarrow> bool" where
  "isHexDigit c = (c \<in> set ''0123456789abcdefABCDEF'')"

definition hexValue :: "char \<Rightarrow> nat" where
  "hexValue c =
     (if isDigit c then digitValue c
      else if c \<in> set ''abcdef'' then of_char c - 87
      else of_char c - 55)"

definition parseHex :: "string \<Rightarrow> nat" where
  "parseHex ds = foldl (\<lambda>acc d. 16 * acc + hexValue d) 0 ds"

definition parseInt :: "string \<Rightarrow> int option" where
  "parseInt s =
     (let s1 = dropWhile isSpace s;
          neg = startsWith ''-'' s1;
          s2 = (if startsWith ''-'' s1 \<or> startsWith ''+'' s1 then tl s1 else s1);
          magnitude =
            (if startsWith ''0x'' s2 \<or> startsWith ''0X'' s2
             then (let ds = takeWhile isHexDigit (drop 2 s2)
                   in if ds = [] then None else Some (parseHex ds))
             else (let ds = takeWhile isDigit s2
                   in if ds = [] then None else Some (parseDigits ds)))
      in map_option (\<lambda>m. if neg then - int m else int m) magnitude)"

text \<open>\<open>parseInt(tokens[i])\<close>; a missing token is \<open>undefined\<close>, which parses to \<open>NaN\<close>.\<close>

definition parseIntAt :: "string list \<Rightarrow> nat \<Rightarrow> int option" where
  "parseIntAt tokens i = (if i < length tokens then parseInt (tokens ! i) else None)"

text \<open>
  The chromosome collection: an array of chromosome objects with the extra property
  \<open>map\<close> from names to the same objects. The objects live in a store, the array and
  the map hold references (positions in the store).
\<close>

record collection =
  objects :: "chromosome list"
  array :: "nat list"
  map' :: "string \<rightharpoonup> nat"

definition initDataAll :: "string \<Rightarrow> collection \<Rightarrow> collection" where
  "initDataAll label chromosomes =
     chromosomes\<lparr>objects :=
        fold (\<lambda>r objs. objs[r := initData label (objs ! r)])
          (array chromosomes) (objects chromosomes)\<rparr>"

text \<open>
  One line of the file. A \<open>NaN\<close> bound makes both loop tests of \<open>addData\<close> false, so
  such an entry changes nothing.
\<close>

definition addBedLine :: "rat \<Rightarrow> string \<Rightarrow> string \<Rightarrow> collection \<Rightarrow> error + collection" where
  "addBedLine dataScale label line chromosomes =
     (let tokens = splitSpaces (trim line);
          chrom = (case tokens of [] \<Rightarrow> ''undefined'' | t # _ \<Rightarrow> t)
      in case map' chromosomes chrom of
           None \<Rightarrow> Inr chromosomes
         | Some r \<Rightarrow>
             (case (parseIntAt tokens 1, parseIntAt tokens 2) of
                (Some s, Some e) \<Rightarrow>
                  (case addData dataScale label
                          \<lparr>chr = chrom, start = s, end' = e, name = []\<rparr>
                          (objects chromosomes ! r) of
                     Inl err \<Rightarrow> Inl err
                   | Inr c' \<Rightarrow> Inr (chromosomes\<lparr>objects := (objects chromosomes)[r := c']\<rparr>))
              | _ \<Rightarrow> Inr chromosomes))"

fun addBedLines :: "rat \<Rightarrow> string \<Rightarrow> string list \<Rightarrow> collection \<Rightarrow> error + collection" where
  "addBedLines dataScale label [] chromosomes = Inr chromosomes"
| "addBedLines dataScale label (line # rest) chromosomes =
     (case addBedLine dataScale label line chromosomes of
        Inl err \<Rightarrow> Inl err
      | Inr chromosomes' \<Rightarrow> addBedLines dataScale label rest chromosomes')"

text \<open>
  \<open>addBedData\<close>. The content is \<open>None\<close> when reading the file failed (\<open>null\<close>).
  The result is the value returned (\<open>None\<close> for \<open>null\<close>) and the collection after
  the call.
\<close>

definition addBedData ::
    "rat \<Rightarrow> string option \<Rightarrow> string \<Rightarrow> collection \<Rightarrow> error + (collection option \<times> collection)" where
  "addBedData dataScale bedFileContent label chromosomes =
     (case bedFileContent of
        None \<Rightarrow> Inr (None, chromosomes)
      | Some content \<Rightarrow>
          if content = [] then Inr (None, chromosomes)
          else (case addBedLines dataScale label (splitLines (trim content))
                       (initDataAll label chromosomes) of
                  Inl err \<Rightarrow> Inl err
                | Inr chromosomes' \<Rightarrow> Inr (Some chromosomes', chromosomes')))"

text \<open>
  The part of \<open>drawGenomePlot\<close> that reads the files and sizes an entry:
  \<open>validBedFiles\<close> keeps the results of \<open>addBedData\<close> that are not \<open>null\<close>, and
  \<open>svgEntryHeight\<close> is computed from their number.
\<close>

definition labelAt :: "params \<Rightarrow> nat \<Rightarrow> string" where
  "labelAt ps i =
     (if i < length (labels ps) \<and> labels ps ! i \<noteq> [] then labels ps ! i
      else if i < length (args ps) then args ps ! i
      else ''undefined'')"

fun readBedFiles ::
    "rat \<Rightarrow> params \<Rightarrow> nat \<Rightarrow> string option list \<Rightarrow> collection
      \<Rightarrow> error + (collection option list \<times> collection)" where
  "readBedFiles dataScale ps bedFileIndex [] chromosomes = Inr ([], chromosomes)"
| "readBedFiles dataScale ps bedFileIndex (bedFile # rest) chromosomes =
     (case addBedData dataScale bedFile (labelAt ps bedFileIndex) chromosomes of
        Inl err \<Rightarrow> Inl err
      | Inr (result, chromosomes') \<Rightarrow>
          (case readBedFiles dataScale ps (Suc bedFileIndex) rest chromosomes' of
             Inl err \<Rightarrow> Inl err
           | Inr (results, chromosomes'') \<Rightarrow> Inr (result # results, chromosomes'')))"

definition validBedFiles ::
    "rat \<Rightarrow> params \<Rightarrow> string option list \<Rightarrow> collection
      \<Rightarrow> error + (collection option list \<times> collection)" where
  "validBedFiles dataScale ps bedFiles chromosomes =
     (case readBedFiles dataScale ps 0 bedFiles chromosomes of
        Inl err \<Rightarrow> Inl err
      | Inr (results, chromosomes') \<Rightarrow>
          Inr (filter (\<lambda>result. result \<noteq> None) results, chromosomes'))"

definition svgEntryHeight ::
    "rat \<Rightarrow> params \<Rightarrow> string option list \<Rightarrow> collection \<Rightarrow> error + rat" where
  "svgEntryHeight dataScale ps bedFiles chromosomes =
     (case validBedFiles dataScale ps bedFiles chromosomes of
        Inl err \<Rightarrow> Inl err
      | Inr (valid, chromosomes') \<Rightarrow>
          Inr (of_nat (length valid) * (height ps + inGap ps) +
               (if cytobandIdeo ps \<noteq> None \<and> cytobandIdeo ps \<noteq> Some []
                then cytobandHeight ps else chromosomeBarHeight ps)))"

section \<open>Properties\<close>

subsection \<open>Sorting with a comparator\<close>

lemma mset_insort_cmp: "mset (insort_cmp cmp x xs) = add_mset x (mset xs)"
  by (induction xs) auto

lemma mset_sort_cmp: "mset (sort_cmp cmp xs) = mset xs"
  unfolding sort_cmp_def by (induction xs) (auto simp: mset_insort_cmp)

lemma length_sort_cmp: "length (sort_cmp cmp xs) = length xs"
  using mset_sort_cmp[of cmp xs] by (metis size_mset)

subsection \<open>Stacking\<close>

lemma mset_concat_push:
  "j < length stack \<Longrightarrow> mset (concat (stack[j := stack ! j @ [x]])) = add_mset x (mset (concat stack))"
  by (induction stack arbitrary: j) (auto split: nat.splits)

lemma stackLoop_mset:
  "stackLoop t i rest stack = Inr st \<Longrightarrow> mset (concat st) = mset (concat stack) + mset rest"
proof (induction rest arbitrary: i stack)
  case Nil
  then show ?case by simp
next
  case (Cons x rest)
  then show ?case
    by (auto simp: Let_def mset_concat_push split: if_splits)
qed

lemma stackLoop_shape:
  "length stack = min i h \<Longrightarrow> i + length rest \<le> 2 * h \<Longrightarrow>
   \<exists>st. stackLoop (2 * h) i rest stack = Inr st \<and> length st = min (i + length rest) h \<and>
     (\<forall>k < length st. st ! k =
        (if k < i then stack ! k else [rest ! (k - i)]) @
        (if i \<le> 2 * h - 1 - k \<and> 2 * h - 1 - k < i + length rest
         then [rest ! (2 * h - 1 - k - i)] else []))"
proof (induction rest arbitrary: i stack)
  case Nil
  then show ?case by auto
next
  case (Cons x rest)
  show ?case
  proof (cases "i < h")
    case True
    have l: "length (stack @ [[x]]) = min (Suc i) h" using Cons.prems True by simp
    have b: "Suc i + length rest \<le> 2 * h" using Cons.prems by simp
    from Cons.IH[OF l b] obtain st where
      st: "stackLoop (2 * h) (Suc i) rest (stack @ [[x]]) = Inr st"
        "length st = min (Suc i + length rest) h"
        "\<forall>k < length st. st ! k =
        (if k < Suc i then (stack @ [[x]]) ! k else [rest ! (k - Suc i)]) @
        (if Suc i \<le> 2 * h - 1 - k \<and> 2 * h - 1 - k < Suc i + length rest
         then [rest ! (2 * h - 1 - k - Suc i)] else [])" by blast
    have run: "stackLoop (2 * h) i (x # rest) stack = Inr st"
      using True st(1) by simp
    have len: "length st = min (i + length (x # rest)) h" using st(2) by simp
    have "st ! k =
        (if k < i then stack ! k else [(x # rest) ! (k - i)]) @
        (if i \<le> 2 * h - 1 - k \<and> 2 * h - 1 - k < i + length (x # rest)
         then [(x # rest) ! (2 * h - 1 - k - i)] else [])" if k: "k < length st" for k
    proof -
      have kh: "k < h" using k st(2) by simp
      have ne: "2 * h - 1 - k \<noteq> i" using kh True by arith
      have e1: "(if k < Suc i then (stack @ [[x]]) ! k else [rest ! (k - Suc i)])
        = (if k < i then stack ! k else [(x # rest) ! (k - i)])"
        using Cons.prems(1) True by (auto simp: nth_append nth_Cons' less_Suc_eq)
      have e2: "(if Suc i \<le> 2 * h - 1 - k \<and> 2 * h - 1 - k < Suc i + length rest
         then [rest ! (2 * h - 1 - k - Suc i)] else [])
        = (if i \<le> 2 * h - 1 - k \<and> 2 * h - 1 - k < i + length (x # rest)
         then [(x # rest) ! (2 * h - 1 - k - i)] else [])"
        using ne by (auto simp: nth_Cons')
      show ?thesis using st(3) k e1 e2 by simp
    qed
    then show ?thesis using run len by blast
  next
    case False
    define j where "j = 2 * h - 1 - i"
    have ih: "h \<le> i" using False by simp
    have i2: "i < 2 * h" using Cons.prems(2) by simp
    have jl: "j < length stack" using Cons.prems(1) ih i2 by (simp add: j_def)
    have jint: "int (2 * h) - 1 - int i = int j" using i2 by (simp add: j_def)
    let ?stack = "stack[j := stack ! j @ [x]]"
    have l: "length ?stack = min (Suc i) h" using Cons.prems ih by simp
    have b: "Suc i + length rest \<le> 2 * h" using Cons.prems by simp
    from Cons.IH[OF l b] obtain st where
      st: "stackLoop (2 * h) (Suc i) rest ?stack = Inr st"
        "length st = min (Suc i + length rest) h"
        "\<forall>k < length st. st ! k =
        (if k < Suc i then ?stack ! k else [rest ! (k - Suc i)]) @
        (if Suc i \<le> 2 * h - 1 - k \<and> 2 * h - 1 - k < Suc i + length rest
         then [rest ! (2 * h - 1 - k - Suc i)] else [])" by blast
    have run: "stackLoop (2 * h) i (x # rest) stack = Inr st"
      using False st(1) jl jint by (simp add: Let_def)
    have len: "length st = min (i + length (x # rest)) h" using st(2) by simp
    have "st ! k =
        (if k < i then stack ! k else [(x # rest) ! (k - i)]) @
        (if i \<le> 2 * h - 1 - k \<and> 2 * h - 1 - k < i + length (x # rest)
         then [(x # rest) ! (2 * h - 1 - k - i)] else [])" if k: "k < length st" for k
    proof -
      have kh: "k < h" using k st(2) by simp
      have ki: "k < i" using kh ih by simp
      have kl: "k < length stack" using Cons.prems(1) ih kh by simp
      show ?thesis
      proof (cases "k = j")
        case True
        have "2 * h - 1 - k = i" using True i2 by (simp add: j_def)
        then show ?thesis using st(3) k ki kl True by (simp add: less_Suc_eq)
      next
        case False
        have ne: "2 * h - 1 - k \<noteq> i" using False kh i2 by (auto simp: j_def)
        have e2: "(if Suc i \<le> 2 * h - 1 - k \<and> 2 * h - 1 - k < Suc i + length rest
         then [rest ! (2 * h - 1 - k - Suc i)] else [])
        = (if i \<le> 2 * h - 1 - k \<and> 2 * h - 1 - k < i + length (x # rest)
         then [(x # rest) ! (2 * h - 1 - k - i)] else [])"
          using ne by (auto simp: nth_Cons')
        show ?thesis using st(3) k ki kl False e2 by (simp add: less_Suc_eq)
      qed
    qed
    then show ?thesis using run len by blast
  qed
qed

lemma stackChromosomes_run:
  fixes cs :: "('a::type) region_scheme list"
  shows "\<exists>stack. stackChromosomes cs = Inr stack \<and>
     length stack = (length cs + 1) div 2 \<and>
     (\<forall>k < length stack. stack ! k =
        [sort_cmp compare cs ! k] @
        (if 2 * ((length cs + 1) div 2) - 1 - k < length cs
         then [sort_cmp compare cs ! (2 * ((length cs + 1) div 2) - 1 - k)] else []))"
proof -
  let ?s = "sort_cmp compare cs"
  let ?h = "(length cs + 1) div 2"
  have "length ([]::'a region_scheme list list) = min 0 ?h" by simp
  moreover have "0 + length ?s \<le> 2 * ?h" by (simp add: length_sort_cmp) 
  ultimately obtain st where st: "stackLoop (2 * ?h) 0 ?s [] = Inr st"
    "length st = min (0 + length ?s) ?h"
    "\<forall>k < length st. st ! k =
        (if k < 0 then [] ! k else [?s ! (k - 0)]) @
        (if 0 \<le> 2 * ?h - 1 - k \<and> 2 * ?h - 1 - k < 0 + length ?s
         then [?s ! (2 * ?h - 1 - k - 0)] else [])"
    using stackLoop_shape[of "[]" 0 ?h ?s] by blast
  have "stackChromosomes cs = Inr st"
    using st(1) by (simp add: stackChromosomes_def Let_def length_sort_cmp mult.commute)
  moreover have "length st = ?h" using st(2) by (simp add: length_sort_cmp)
  ultimately show ?thesis using st(3) by (simp add: length_sort_cmp)
qed

text \<open>
  C1 (as amended). For every list of \<open>n\<close> chromosomes \<open>stackChromosomes\<close> returns
  \<open>ceil(n/2)\<close> stacks, and every input chromosome is in exactly one stack. When \<open>n\<close>
  is even, stack \<open>k\<close> holds the elements at positions \<open>k\<close> and \<open>n-1-k\<close> of the sorted
  input, in that order. When \<open>n\<close> is odd, stack \<open>0\<close> holds only the first element of
  the sorted input and every later stack \<open>k\<close> holds the elements at positions \<open>k\<close>
  and \<open>n-k\<close>; so exactly one stack, the first, has size 1 and all others have size 2.
  For a sorted input \<open>[c1..c8]\<close> the result is
  \<open>[[c1,c8],[c2,c7],[c3,c6],[c4,c5]]\<close>.
\<close>

theorem stackChromosomes_pairs:
  fixes cs :: "('a::type) region_scheme list"
  shows "\<exists>stack. stackChromosomes cs = Inr stack \<and>
     length stack = (length cs + 1) div 2 \<and>
     mset (concat stack) = mset cs \<and>
     (even (length cs) \<longrightarrow>
        (\<forall>k < length cs div 2.
           stack ! k = [sort_cmp compare cs ! k, sort_cmp compare cs ! (length cs - 1 - k)])) \<and>
     (odd (length cs) \<longrightarrow>
        stack ! 0 = [sort_cmp compare cs ! 0] \<and>
        (\<forall>k. 0 < k \<and> k < (length cs + 1) div 2 \<longrightarrow>
           stack ! k = [sort_cmp compare cs ! k, sort_cmp compare cs ! (length cs - k)])) \<and>
     (\<forall>k < length stack. length (stack ! k) = (if odd (length cs) \<and> k = 0 then 1 else 2)) \<and>
     (\<forall>c1 c2 c3 c4 c5 c6 c7 c8. sort_cmp compare cs = [c1, c2, c3, c4, c5, c6, c7, c8] \<longrightarrow>
        stack = [[c1, c8], [c2, c7], [c3, c6], [c4, c5]])"
proof -
  let ?s = "sort_cmp compare cs"
  let ?n = "length cs"
  obtain stack where run: "stackChromosomes cs = Inr stack"
    and len: "length stack = (?n + 1) div 2"
    and nth: "\<And>k. k < length stack \<Longrightarrow> stack ! k =
        [?s ! k] @ (if 2 * ((?n + 1) div 2) - 1 - k < ?n
                    then [?s ! (2 * ((?n + 1) div 2) - 1 - k)] else [])"
    using stackChromosomes_run[of cs] by blast
  have loop: "stackLoop (((?n + 1) div 2) * 2) 0 ?s [] = Inr stack"
    using run by (simp add: stackChromosomes_def Let_def length_sort_cmp)
  have perm: "mset (concat stack) = mset cs"
    using stackLoop_mset[OF loop] by (simp add: mset_sort_cmp)
  have ev: "stack ! k = [?s ! k, ?s ! (?n - 1 - k)]" if "even ?n" "k < ?n div 2" for k
  proof -
    have h: "2 * ((?n + 1) div 2) = ?n" using that(1) by auto
    have "k < length stack" using that len by auto
    from nth[OF this] show ?thesis using that(2) h by auto
  qed
  have od0: "stack ! 0 = [?s ! 0]" if "odd ?n"
  proof -
    have h: "2 * ((?n + 1) div 2) = ?n + 1" using that by auto
    have "0 < length stack" using that len by (auto elim: oddE)
    from nth[OF this] show ?thesis using h by auto
  qed
  have od: "stack ! k = [?s ! k, ?s ! (?n - k)]" if "odd ?n" "0 < k" "k < (?n + 1) div 2" for k
  proof -
    have h: "2 * ((?n + 1) div 2) = ?n + 1" using that(1) by auto
    have pos: "0 < ?n" using that(1) by (rule odd_pos)
    have "k < length stack" using that len by auto
    from nth[OF this] show ?thesis using that(2) h pos by auto
  qed
  have sz: "length (stack ! k) = (if odd ?n \<and> k = 0 then 1 else 2)" if "k < length stack" for k
  proof (cases "odd ?n")
    case True
    show ?thesis
    proof (cases "k = 0")
      case True
      then show ?thesis using od0 \<open>odd ?n\<close> by simp
    next
      case False
      then show ?thesis using od[of k] \<open>odd ?n\<close> that len by simp
    qed
  next
    case False
    have "k < ?n div 2" using that len False by auto
    then show ?thesis using ev[of k] False by simp
  qed
  have eight: "stack = [[c1, c8], [c2, c7], [c3, c6], [c4, c5]]"
    if "?s = [c1, c2, c3, c4, c5, c6, c7, c8]" for c1 c2 c3 c4 c5 c6 c7 c8
  proof -
    have "?n = 8" using that length_sort_cmp[of compare cs] by simp
    then show ?thesis using loop that by (simp add: Let_def)
  qed
  show ?thesis
    using run len perm ev od0 od sz eight by blast
qed

theorem stackChromosomes_pairs_witness:
  "stackChromosomes [Chromosome ''chr3'' 100, Chromosome ''chr1'' 300, Chromosome ''chr2'' 200]
     = Inr [[Chromosome ''chr1'' 300], [Chromosome ''chr2'' 200, Chromosome ''chr3'' 100]] \<and>
   stackChromosomes
     [Chromosome ''chr8'' 10, Chromosome ''chr7'' 20, Chromosome ''chr6'' 30, Chromosome ''chr5'' 40,
      Chromosome ''chr4'' 50, Chromosome ''chr3'' 60, Chromosome ''chr2'' 70, Chromosome ''chr1'' 80]
     = Inr [[Chromosome ''chr1'' 80, Chromosome ''chr8'' 10],
            [Chromosome ''chr2'' 70, Chromosome ''chr7'' 20],
            [Chromosome ''chr3'' 60, Chromosome ''chr6'' 30],
            [Chromosome ''chr4'' 50, Chromosome ''chr5'' 40]]"
proof -
  let ?cs = "[Chromosome ''chr3'' 100, Chromosome ''chr1'' 300, Chromosome ''chr2'' 200]"
  let ?ds = "[Chromosome ''chr8'' 10, Chromosome ''chr7'' 20, Chromosome ''chr6'' 30, Chromosome ''chr5'' 40,
      Chromosome ''chr4'' 50, Chromosome ''chr3'' 60, Chromosome ''chr2'' 70, Chromosome ''chr1'' 80]"
  have s: "sort_cmp compare ?cs = [Chromosome ''chr1'' 300, Chromosome ''chr2'' 200, Chromosome ''chr3'' 100]"
    by (simp add: sort_cmp_def compare_def Chromosome_def)
  have t: "sort_cmp compare ?ds =
      [Chromosome ''chr1'' 80, Chromosome ''chr2'' 70, Chromosome ''chr3'' 60, Chromosome ''chr4'' 50,
       Chromosome ''chr5'' 40, Chromosome ''chr6'' 30, Chromosome ''chr7'' 20, Chromosome ''chr8'' 10]"
    by (simp add: sort_cmp_def compare_def Chromosome_def)
  have o: "odd (length ?cs)" by simp
  have k: "0 < (1::nat) \<and> 1 < (length ?cs + 1) div 2" by simp
  obtain stack where st: "stackChromosomes ?cs = Inr stack" "length stack = (length ?cs + 1) div 2"
    "odd (length ?cs) \<longrightarrow>
        stack ! 0 = [sort_cmp compare ?cs ! 0] \<and>
        (\<forall>k. 0 < k \<and> k < (length ?cs + 1) div 2 \<longrightarrow>
           stack ! k = [sort_cmp compare ?cs ! k, sort_cmp compare ?cs ! (length ?cs - k)])"
    using stackChromosomes_pairs[of ?cs] by blast
  from st(3) o k have "stack ! 0 = [sort_cmp compare ?cs ! 0]"
    "stack ! 1 = [sort_cmp compare ?cs ! 1, sort_cmp compare ?cs ! (length ?cs - 1)]" by blast+
  then have n: "stack ! 0 = [Chromosome ''chr1'' 300]"
    "stack ! 1 = [Chromosome ''chr2'' 200, Chromosome ''chr3'' 100]"
    unfolding s by simp_all
  have l: "length stack = 2" using st(2) by simp
  have "stack = [stack ! 0, stack ! 1]"
    using l by (intro nth_equalityI) (auto simp: less_Suc_eq numeral_2_eq_2)
  then have odd3: "stackChromosomes ?cs =
      Inr [[Chromosome ''chr1'' 300], [Chromosome ''chr2'' 200, Chromosome ''chr3'' 100]]"
    using st(1) n by simp
  obtain stack8 where st8: "stackChromosomes ?ds = Inr stack8"
    "\<forall>c1 c2 c3 c4 c5 c6 c7 c8. sort_cmp compare ?ds = [c1, c2, c3, c4, c5, c6, c7, c8] \<longrightarrow>
        stack8 = [[c1, c8], [c2, c7], [c3, c6], [c4, c5]]"
    using stackChromosomes_pairs[of ?ds] by blast
  from st8(2) t have "stack8 = [[Chromosome ''chr1'' 80, Chromosome ''chr8'' 10],
            [Chromosome ''chr2'' 70, Chromosome ''chr7'' 20],
            [Chromosome ''chr3'' 60, Chromosome ''chr6'' 30],
            [Chromosome ''chr4'' 50, Chromosome ''chr5'' 40]]" by blast
  then show ?thesis using odd3 st8(1) by simp
qed

text \<open>
  C1 as stated asks, for odd \<open>n\<close>, that stack \<open>0\<close> pairs the first and the last
  element and that the middle element stays alone. With three chromosomes the code
  leaves the first one alone and pairs the second with the third.
\<close>

theorem stackChromosomes_odd_counterexample:
  "stackChromosomes [Chromosome ''chr1'' 300, Chromosome ''chr2'' 200, Chromosome ''chr3'' 100]
     = Inr [[Chromosome ''chr1'' 300], [Chromosome ''chr2'' 200, Chromosome ''chr3'' 100]]"
  by (simp add: stackChromosomes_def sort_cmp_def compare_def Chromosome_def Let_def)

subsection \<open>The comparator sorts\<close>

lemma set_insort_cmp: "set (insort_cmp cmp x xs) = insert x (set xs)"
  by (induction xs) auto

lemma sorted_insort_cmp:
  assumes tot: "\<And>x y. cmp x y \<le> 0 \<or> cmp y x \<le> 0"
    and trans: "\<And>x y z. cmp x y \<le> 0 \<Longrightarrow> cmp y z \<le> 0 \<Longrightarrow> cmp x z \<le> 0"
  shows "sorted_wrt (\<lambda>a b. cmp a b \<le> 0) xs \<Longrightarrow>
         sorted_wrt (\<lambda>a b. cmp a b \<le> 0) (insort_cmp cmp x xs)"
proof (induction xs)
  case Nil
  then show ?case by simp
next
  case (Cons y ys)
  show ?case
  proof (cases "cmp x y \<le> 0")
    case True
    then have "\<forall>z \<in> set ys. cmp x z \<le> 0"
      using Cons.prems trans by auto
    then show ?thesis using True Cons.prems by simp
  next
    case False
    then have yx: "cmp y x \<le> 0" using tot[of x y] by simp
    have "sorted_wrt (\<lambda>a b. cmp a b \<le> 0) (insort_cmp cmp x ys)"
      using Cons.IH Cons.prems by simp
    then show ?thesis using False yx Cons.prems by (simp add: set_insort_cmp)
  qed
qed

lemma sorted_sort_cmp:
  assumes tot: "\<And>x y. cmp x y \<le> 0 \<or> cmp y x \<le> 0"
    and trans: "\<And>x y z. cmp x y \<le> 0 \<Longrightarrow> cmp y z \<le> 0 \<Longrightarrow> cmp x z \<le> 0"
  shows "sorted_wrt (\<lambda>a b. cmp a b \<le> 0) (sort_cmp cmp xs)"
  unfolding sort_cmp_def
  by (induction xs) (simp_all add: sorted_insort_cmp[OF tot trans])

lemma compare_total: "compare x y \<le> 0 \<or> compare y x \<le> 0"
  by (auto simp: compare_def)

lemma compare_trans: "compare x y \<le> 0 \<Longrightarrow> compare y z \<le> 0 \<Longrightarrow> compare x z \<le> 0"
  by (auto simp: compare_def split: if_splits)

lemma sorted_sort_compare: "sorted_wrt (\<lambda>a b. compare a b \<le> 0) (sort_cmp compare xs)"
  by (rule sorted_sort_cmp[OF compare_total compare_trans])

subsection \<open>Filtering\<close>

lemma chrM_not_regular: "name c = ''chrM'' \<Longrightarrow> \<not> isRegular c"
  by (simp add: isRegular_def)

lemma chrM_mito: "name c = ''chrM'' \<Longrightarrow> isMitochondrial c"
  by (simp add: isMitochondrial_def equalsIgnoreCase_def)

text \<open>
  C2. \<open>filterChromosome\<close> returns the sorted sequence and keeps a chromosome if and
  only if \<open>(includeNonRegular or regular) or (includeMito and mitochondrial)\<close>. With
  \<open>includeNonRegular = false\<close> and \<open>includeMito = true\<close> a chromosome named
  \<open>chrM\<close> is kept although it fails the regular-name test.
\<close>

theorem filterChromosome_union:
  "filterChromosome cs includeNonRegular includeMito =
     filter (\<lambda>c. (includeNonRegular \<or> isRegular c) \<or> (includeMito \<and> isMitochondrial c))
       (sort_cmp compare cs) \<and>
   sorted_wrt (\<lambda>a b. compare a b \<le> 0) (filterChromosome cs includeNonRegular includeMito) \<and>
   mset (filterChromosome cs includeNonRegular includeMito) =
     filter_mset (\<lambda>c. (includeNonRegular \<or> isRegular c) \<or> (includeMito \<and> isMitochondrial c))
       (mset cs) \<and>
   (\<forall>c. c \<in> set (filterChromosome cs includeNonRegular includeMito) \<longleftrightarrow>
      c \<in> set cs \<and> ((includeNonRegular \<or> isRegular c) \<or> (includeMito \<and> isMitochondrial c))) \<and>
   (\<forall>c \<in> set cs. name c = ''chrM'' \<longrightarrow>
      \<not> isRegular c \<and> c \<in> set (filterChromosome cs False True))"
proof -
  let ?P = "\<lambda>c::'a region_scheme. (includeNonRegular \<or> isRegular c) \<or> (includeMito \<and> isMitochondrial c)"
  have eq: "\<And>nr mito. filterChromosome cs nr mito =
     filter (\<lambda>c. (nr \<or> isRegular c) \<or> (mito \<and> isMitochondrial c)) (sort_cmp compare cs)"
    by (simp add: filterChromosome_def)
  have srt: "sorted_wrt (\<lambda>a b. compare a b \<le> 0) (filterChromosome cs includeNonRegular includeMito)"
    unfolding eq by (rule sorted_wrt_filter[OF sorted_sort_compare])
  have ms: "mset (filterChromosome cs includeNonRegular includeMito) = filter_mset ?P (mset cs)"
    unfolding eq by (simp add: mset_sort_cmp)
  have st: "set (sort_cmp compare cs) = set cs"
    using mset_sort_cmp[of compare cs] by (metis set_mset_mset)
  have mem: "\<forall>c. c \<in> set (filterChromosome cs includeNonRegular includeMito) \<longleftrightarrow> c \<in> set cs \<and> ?P c"
    unfolding eq by (simp add: st)
  have mito: "\<forall>c \<in> set cs. name c = ''chrM'' \<longrightarrow>
      \<not> isRegular c \<and> c \<in> set (filterChromosome cs False True)"
    unfolding eq by (simp add: st chrM_not_regular chrM_mito)
  show ?thesis using eq srt ms mem mito by blast
qed

theorem filterChromosome_union_witness:
  "filterChromosome [Chromosome ''chrM'' 16571, Chromosome ''chrUn_gl000220'' 161802, Chromosome ''chr1'' 1000]
      False True = [Chromosome ''chr1'' 1000, Chromosome ''chrM'' 16571] \<and>
   \<not> isRegular (Chromosome ''chrM'' 16571) \<and>
   Chromosome ''chrM'' 16571 \<in> set (filterChromosome
      [Chromosome ''chrM'' 16571, Chromosome ''chrUn_gl000220'' 161802, Chromosome ''chr1'' 1000] False True)"
proof -
  let ?cs = "[Chromosome ''chrM'' 16571, Chromosome ''chrUn_gl000220'' 161802, Chromosome ''chr1'' 1000]"
  have s: "sort_cmp compare ?cs = [Chromosome ''chr1'' 1000, Chromosome ''chrM'' 16571, Chromosome ''chrUn_gl000220'' 161802]"
    by (simp add: sort_cmp_def compare_def Chromosome_def)
  have m: "Chromosome ''chrM'' 16571 \<in> set ?cs" by simp
  have n: "name (Chromosome ''chrM'' 16571) = ''chrM''" by (simp add: Chromosome_def)
  have r1: "isRegular (Chromosome ''chr1'' 1000)" by (simp add: isRegular_def Chromosome_def)
  have r2: "\<not> isRegular (Chromosome ''chrUn_gl000220'' 161802)" by (simp add: isRegular_def Chromosome_def)
  have r3: "\<not> isMitochondrial (Chromosome ''chrUn_gl000220'' 161802)"
    by (simp add: isMitochondrial_def equalsIgnoreCase_def Chromosome_def)
  have r4: "isMitochondrial (Chromosome ''chrM'' 16571)"
    by (simp add: isMitochondrial_def equalsIgnoreCase_def Chromosome_def)
  from filterChromosome_union[of ?cs False True]
  have eq: "filterChromosome ?cs False True =
     filter (\<lambda>c. (False \<or> isRegular c) \<or> (True \<and> isMitochondrial c)) (sort_cmp compare ?cs)"
    and mito: "\<forall>c \<in> set ?cs. name c = ''chrM'' \<longrightarrow> \<not> isRegular c \<and> c \<in> set (filterChromosome ?cs False True)"
    by blast+
  from mito m n have "\<not> isRegular (Chromosome ''chrM'' 16571) \<and>
     Chromosome ''chrM'' 16571 \<in> set (filterChromosome ?cs False True)" by blast
  moreover have "filterChromosome ?cs False True = [Chromosome ''chr1'' 1000, Chromosome ''chrM'' 16571]"
    unfolding eq s using r1 r2 r3 r4 by simp
  ultimately show ?thesis by blast
qed

subsection \<open>Rasterizing\<close>

lemma binCount_arraySet: "binCount (arraySet a i v) j = (if j = i then v else binCount a j)"
  by (simp add: binCount_def arraySet_def)

lemma addDataLoop_Some:
  "data c label = Some a \<Longrightarrow>
   \<exists>a'. addDataLoop S label b i c = Inr (c\<lparr>data := (data c)(label \<mapsto> a')\<rparr>) \<and>
     (\<forall>j. cells a' j =
        (if i \<le> j \<and> j \<le> jsRound (of_int (end' b) / S) then Some (binCount a j + 1)
         else cells a j)) \<and>
     alength a' =
        (if i \<le> jsRound (of_int (end' b) / S) \<and> 0 \<le> jsRound (of_int (end' b) / S)
         then max (alength a) (nat (jsRound (of_int (end' b) / S)) + 1) else alength a)"
proof (induction S label b i c arbitrary: a rule: addDataLoop.induct)
  case (1 S label b i c)
  let ?hi = "jsRound (of_int (end' b) / S)"
  show ?case
  proof (cases "i \<le> ?hi")
    case False
    have "(data c)(label \<mapsto> a) = data c" using "1.prems" by (rule fun_upd_idem)
    then have e: "c\<lparr>data := (data c)(label \<mapsto> a)\<rparr> = c" by simp
    have r: "addDataLoop S label b i c = Inr c"
      using False by (subst addDataLoop.simps) simp
    show ?thesis
    proof (intro exI[of _ a] conjI allI)
      show "addDataLoop S label b i c = Inr (c\<lparr>data := (data c)(label \<mapsto> a)\<rparr>)"
        unfolding e by (rule r)
    qed (use False in auto)
  next
    case True
    let ?a1 = "arraySet a i ((case cells a i of None \<Rightarrow> 0 | Some v \<Rightarrow> v) + 1)"
    let ?c1 = "c\<lparr>data := (data c)(label \<mapsto> ?a1)\<rparr>"
    have d1: "data ?c1 label = Some ?a1" by simp
    from "1.IH"[OF True "1.prems" d1] obtain a' where
      run: "addDataLoop S label b (i + 1) ?c1 = Inr (?c1\<lparr>data := (data ?c1)(label \<mapsto> a')\<rparr>)"
      and cel: "\<forall>j. cells a' j = (if i + 1 \<le> j \<and> j \<le> ?hi then Some (binCount ?a1 j + 1) else cells ?a1 j)"
      and len: "alength a' = (if i + 1 \<le> ?hi \<and> 0 \<le> ?hi then max (alength ?a1) (nat ?hi + 1) else alength ?a1)"
      by blast
    have step: "addDataLoop S label b i c = addDataLoop S label b (i + 1) ?c1"
      using True "1.prems" by (subst addDataLoop.simps) simp
    have rec: "?c1\<lparr>data := (data ?c1)(label \<mapsto> a')\<rparr> = c\<lparr>data := (data c)(label \<mapsto> a')\<rparr>"
      by simp
    have c2: "\<forall>j. cells a' j = (if i \<le> j \<and> j \<le> ?hi then Some (binCount a j + 1) else cells a j)"
    proof
      fix j
      show "cells a' j = (if i \<le> j \<and> j \<le> ?hi then Some (binCount a j + 1) else cells a j)"
      proof (cases "j = i")
        case True
        then show ?thesis using cel \<open>i \<le> ?hi\<close> by (simp add: arraySet_def binCount_def)
      next
        case False
        then have "(i + 1 \<le> j) = (i \<le> j)" by auto
        then show ?thesis using cel False by (simp add: arraySet_def binCount_def)
      qed
    qed
    have l2: "alength a' = (if i \<le> ?hi \<and> 0 \<le> ?hi then max (alength a) (nat ?hi + 1) else alength a)"
      using len True by (auto simp: arraySet_def max_def)
    show ?thesis
    proof (intro exI[of _ a'] conjI)
      show "addDataLoop S label b i c = Inr (c\<lparr>data := (data c)(label \<mapsto> a')\<rparr>)"
        unfolding step run rec by (rule refl)
    qed (fact c2, fact l2)
  qed
qed

lemma addData_Some:
  assumes d: "data c label = Some a"
  shows "\<exists>a'. addData S label b c = Inr (c\<lparr>data := (data c)(label \<mapsto> a')\<rparr>) \<and>
     (\<forall>i. binCount a' i =
        binCount a i +
        (if chr c = chr b \<and> jsRound (of_int (start b) / S) \<le> i \<and> i \<le> jsRound (of_int (end' b) / S)
         then 1 else 0)) \<and>
     alength a' =
        (if chr c = chr b \<and> jsRound (of_int (start b) / S) \<le> jsRound (of_int (end' b) / S)
            \<and> 0 \<le> jsRound (of_int (end' b) / S)
         then max (alength a) (nat (jsRound (of_int (end' b) / S)) + 1) else alength a)"
proof (cases "chr c = chr b")
  case False
  have "(data c)(label \<mapsto> a) = data c" using d by (rule fun_upd_idem)
  then have e: "c\<lparr>data := (data c)(label \<mapsto> a)\<rparr> = c" by simp
  have r: "addData S label b c = Inr c" using False by (simp add: addData_def)
  show ?thesis
  proof (intro exI[of _ a] conjI)
    show "addData S label b c = Inr (c\<lparr>data := (data c)(label \<mapsto> a)\<rparr>)"
      unfolding e by (rule r)
  qed (use False in simp_all)
next
  case True
  let ?lo = "jsRound (of_int (start b) / S)"
  let ?hi = "jsRound (of_int (end' b) / S)"
  from addDataLoop_Some[OF d, of S b ?lo] obtain a' where
    run: "addDataLoop S label b ?lo c = Inr (c\<lparr>data := (data c)(label \<mapsto> a')\<rparr>)"
    and cel: "\<forall>j. cells a' j = (if ?lo \<le> j \<and> j \<le> ?hi then Some (binCount a j + 1) else cells a j)"
    and len: "alength a' = (if ?lo \<le> ?hi \<and> 0 \<le> ?hi then max (alength a) (nat ?hi + 1) else alength a)"
    by blast
  show ?thesis
  proof (intro exI[of _ a'] conjI)
    show "addData S label b c = Inr (c\<lparr>data := (data c)(label \<mapsto> a')\<rparr>)"
      using True run by (simp add: addData_def)
    show "\<forall>i. binCount a' i = binCount a i + (if chr c = chr b \<and> ?lo \<le> i \<and> i \<le> ?hi then 1 else 0)"
      using cel True by (simp add: binCount_def)
    show "alength a' = (if chr c = chr b \<and> ?lo \<le> ?hi \<and> 0 \<le> ?hi
         then max (alength a) (nat ?hi + 1) else alength a)"
      using len True by simp
  qed
qed

lemma addDataEach_Some:
  "data c label = Some a \<Longrightarrow>
   \<exists>a'. addDataEach S label bs c = Inr (c\<lparr>data := (data c)(label \<mapsto> a')\<rparr>) \<and>
     (\<forall>i. binCount a' i =
        binCount a i +
        int (length (filter (\<lambda>b. chr c = chr b \<and> jsRound (of_int (start b) / S) \<le> i
                                   \<and> i \<le> jsRound (of_int (end' b) / S)) bs))) \<and>
     alength a \<le> alength a' \<and>
     (\<forall>b \<in> set bs. chr c = chr b \<and> jsRound (of_int (start b) / S) \<le> jsRound (of_int (end' b) / S)
          \<and> 0 \<le> jsRound (of_int (end' b) / S)
        \<longrightarrow> nat (jsRound (of_int (end' b) / S)) + 1 \<le> alength a') \<and>
     (alength a' = alength a \<or>
      (\<exists>b \<in> set bs. chr c = chr b \<and> jsRound (of_int (start b) / S) \<le> jsRound (of_int (end' b) / S)
          \<and> 0 \<le> jsRound (of_int (end' b) / S)
          \<and> alength a' = nat (jsRound (of_int (end' b) / S)) + 1))"
proof (induction bs arbitrary: c a)
  case Nil
  have "(data c)(label \<mapsto> a) = data c" using Nil by (rule fun_upd_idem)
  then have e: "c\<lparr>data := (data c)(label \<mapsto> a)\<rparr> = c" by simp
  show ?case
  proof (intro exI[of _ a] conjI)
    show "addDataEach S label [] c = Inr (c\<lparr>data := (data c)(label \<mapsto> a)\<rparr>)"
      unfolding e by simp
  qed simp_all
next
  case (Cons b bs)
  let ?lo = "\<lambda>b::'a region_scheme. jsRound (of_int (start b) / S)"
  let ?hi = "\<lambda>b::'a region_scheme. jsRound (of_int (end' b) / S)"
  from addData_Some[OF Cons.prems, of S b] obtain a1 where
    r1: "addData S label b c = Inr (c\<lparr>data := (data c)(label \<mapsto> a1)\<rparr>)"
    and c1: "\<forall>i. binCount a1 i = binCount a i + (if chr c = chr b \<and> ?lo b \<le> i \<and> i \<le> ?hi b then 1 else 0)"
    and l1: "alength a1 = (if chr c = chr b \<and> ?lo b \<le> ?hi b \<and> 0 \<le> ?hi b
         then max (alength a) (nat (?hi b) + 1) else alength a)"
    by blast
  let ?c1 = "c\<lparr>data := (data c)(label \<mapsto> a1)\<rparr>"
  have d1: "data ?c1 label = Some a1" by simp
  from Cons.IH[OF d1] obtain a' where
    r2: "addDataEach S label bs ?c1 = Inr (?c1\<lparr>data := (data ?c1)(label \<mapsto> a')\<rparr>)"
    and c2: "\<forall>i. binCount a' i = binCount a1 i +
        int (length (filter (\<lambda>b. chr ?c1 = chr b \<and> ?lo b \<le> i \<and> i \<le> ?hi b) bs))"
    and mono: "alength a1 \<le> alength a'"
    and lb: "\<forall>b \<in> set bs. chr ?c1 = chr b \<and> ?lo b \<le> ?hi b \<and> 0 \<le> ?hi b
        \<longrightarrow> nat (?hi b) + 1 \<le> alength a'"
    and ex: "alength a' = alength a1 \<or>
      (\<exists>b \<in> set bs. chr ?c1 = chr b \<and> ?lo b \<le> ?hi b \<and> 0 \<le> ?hi b \<and> alength a' = nat (?hi b) + 1)"
    by blast
  have rec: "?c1\<lparr>data := (data ?c1)(label \<mapsto> a')\<rparr> = c\<lparr>data := (data c)(label \<mapsto> a')\<rparr>"
    by simp
  have ch: "chr ?c1 = chr c" by simp
  show ?case
  proof (intro exI[of _ a'] conjI)
    show "addDataEach S label (b # bs) c = Inr (c\<lparr>data := (data c)(label \<mapsto> a')\<rparr>)"
      using r1 r2 rec by simp
    show "\<forall>i. binCount a' i = binCount a i +
        int (length (filter (\<lambda>b. chr c = chr b \<and> ?lo b \<le> i \<and> i \<le> ?hi b) (b # bs)))"
      using c1 c2 ch by simp
    show "alength a \<le> alength a'" using mono l1 by (simp split: if_splits)
    show "\<forall>b \<in> set (b # bs). chr c = chr b \<and> ?lo b \<le> ?hi b \<and> 0 \<le> ?hi b
        \<longrightarrow> nat (?hi b) + 1 \<le> alength a'"
      using lb mono l1 ch by (auto split: if_splits)
    show "alength a' = alength a \<or>
      (\<exists>b \<in> set (b # bs). chr c = chr b \<and> ?lo b \<le> ?hi b \<and> 0 \<le> ?hi b \<and> alength a' = nat (?hi b) + 1)"
    proof (cases "alength a' = alength a1")
      case False
      then show ?thesis using ex ch by auto
    next
      case True
      show ?thesis
      proof (cases "chr c = chr b \<and> ?lo b \<le> ?hi b \<and> 0 \<le> ?hi b")
        case False
        have "alength a1 = alength a" by (subst l1) (rule if_not_P[OF False])
        then show ?thesis using True by simp
      next
        case ok: True
        have "alength a1 = max (alength a) (nat (?hi b) + 1)" by (subst l1) (rule if_P[OF ok])
        then have "alength a' = alength a \<or> alength a' = nat (?hi b) + 1"
          using True by (simp add: max_def)
        then show ?thesis using ok by auto
      qed
    qed
  qed
qed

lemma jsRound_le_ceiling:
  assumes "0 < S" and "e \<le> L"
  shows "jsRound (of_int e / S) \<le> \<lceil>of_int L / S\<rceil>"
proof -
  have "(of_int e :: rat) / S \<le> of_int L / S"
    using assms by (simp add: divide_right_mono)
  also have "\<dots> \<le> of_int \<lceil>of_int L / S\<rceil>" by (rule le_of_int_ceiling)
  finally have "of_int e / S + 1 / 2 < of_int \<lceil>of_int L / S\<rceil> + 1" by simp
  then show ?thesis by (simp add: jsRound_def floor_le_iff)
qed

text \<open>
  C3. When the interval's chromosome name differs from the chromosome's, \<open>addData\<close>
  leaves the chromosome unchanged. Otherwise, on a label that has been initialised, it
  adds exactly 1 to the count of every bin from \<open>round(start / S)\<close> to
  \<open>round(end / S)\<close> inclusive (an absent entry counting as 0) and changes no other
  bin, no other label and no other field. With \<open>S = 100\<close> the interval
  \<open>(chr1, 250, 350)\<close> increments exactly the bins 3 and 4 of \<open>chr1\<close>.
\<close>

theorem addData_increments:
  assumes "0 < S"
  shows "(chr c \<noteq> chr b \<longrightarrow> addData S label b c = Inr c) \<and>
   (chr c = chr b \<and> data c label = Some a \<longrightarrow>
      (\<exists>a'. addData S label b c = Inr (c\<lparr>data := (data c)(label \<mapsto> a')\<rparr>) \<and>
         (\<forall>i. binCount a' i =
            (if jsRound (of_int (start b) / S) \<le> i \<and> i \<le> jsRound (of_int (end' b) / S)
             then binCount a i + 1 else binCount a i)) \<and>
         (\<forall>i. \<not> (jsRound (of_int (start b) / S) \<le> i \<and> i \<le> jsRound (of_int (end' b) / S))
            \<longrightarrow> cells a' i = cells a i)))"
proof (intro conjI impI)
  assume "chr c \<noteq> chr b"
  then show "addData S label b c = Inr c" by (simp add: addData_def)
next
  assume h: "chr c = chr b \<and> data c label = Some a"
  let ?lo = "jsRound (of_int (start b) / S)"
  let ?hi = "jsRound (of_int (end' b) / S)"
  from addDataLoop_Some[of c label a S b ?lo] h obtain a' where
    run: "addDataLoop S label b ?lo c = Inr (c\<lparr>data := (data c)(label \<mapsto> a')\<rparr>)"
    and cel: "\<forall>j. cells a' j = (if ?lo \<le> j \<and> j \<le> ?hi then Some (binCount a j + 1) else cells a j)"
    by blast
  have "addData S label b c = Inr (c\<lparr>data := (data c)(label \<mapsto> a')\<rparr>)"
    using h run by (simp add: addData_def)
  moreover have "\<forall>i. binCount a' i = (if ?lo \<le> i \<and> i \<le> ?hi then binCount a i + 1 else binCount a i)"
    using cel by (simp add: binCount_def)
  moreover have "\<forall>i. \<not> (?lo \<le> i \<and> i \<le> ?hi) \<longrightarrow> cells a' i = cells a i"
    using cel by simp
  ultimately show "\<exists>a'. addData S label b c = Inr (c\<lparr>data := (data c)(label \<mapsto> a')\<rparr>) \<and>
         (\<forall>i. binCount a' i = (if ?lo \<le> i \<and> i \<le> ?hi then binCount a i + 1 else binCount a i)) \<and>
         (\<forall>i. \<not> (?lo \<le> i \<and> i \<le> ?hi) \<longrightarrow> cells a' i = cells a i)"
    by blast
qed

theorem addData_increments_witness:
  "(0::rat) < 100 \<and>
   addData 100 ''default'' \<lparr>chr = ''chr2'', start = 250, end' = 350, name = []\<rparr>
      (initData ''default'' (Chromosome ''chr1'' 1000)) = Inr (initData ''default'' (Chromosome ''chr1'' 1000)) \<and>
   (\<exists>a'. addData 100 ''default'' \<lparr>chr = ''chr1'', start = 250, end' = 350, name = []\<rparr>
            (initData ''default'' (Chromosome ''chr1'' 1000))
          = Inr ((initData ''default'' (Chromosome ''chr1'' 1000))
                   \<lparr>data := (data (initData ''default'' (Chromosome ''chr1'' 1000)))(''default'' \<mapsto> a')\<rparr>) \<and>
      binCount a' 2 = 0 \<and> binCount a' 3 = 1 \<and> binCount a' 4 = 1 \<and> binCount a' 5 = 0)"
proof -
  let ?c = "initData ''default'' (Chromosome ''chr1'' 1000)"
  let ?b = "\<lparr>chr = ''chr1'', start = 250, end' = 350, name = []\<rparr>"
  let ?b2 = "\<lparr>chr = ''chr2'', start = 250, end' = 350, name = []\<rparr>"
  have S: "(0::rat) < 100" by simp
  have d: "chr ?c = chr ?b \<and> data ?c ''default'' = Some emptyArray"
    by (simp add: initData_def Chromosome_def)
  have n: "chr ?c \<noteq> chr ?b2" by (simp add: initData_def Chromosome_def)
  have lo: "jsRound (of_int (start ?b) / 100) = 3" by (simp add: jsRound_def)
  have hi: "jsRound (of_int (end' ?b) / 100) = 4" by (simp add: jsRound_def)
  have z: "\<And>i. binCount emptyArray i = 0" by (simp add: binCount_def emptyArray_def)
  from addData_increments[OF S, of ?c ?b2 "''default''" emptyArray] n
  have other: "addData 100 ''default'' ?b2 ?c = Inr ?c" by blast
  from addData_increments[OF S, of ?c ?b "''default''" emptyArray] d obtain a' where
    run: "addData 100 ''default'' ?b ?c = Inr (?c\<lparr>data := (data ?c)(''default'' \<mapsto> a')\<rparr>)"
    and cnt: "\<forall>i. binCount a' i =
            (if jsRound (of_int (start ?b) / 100) \<le> i \<and> i \<le> jsRound (of_int (end' ?b) / 100)
             then binCount emptyArray i + 1 else binCount emptyArray i)"
    by blast
  have "binCount a' 2 = 0 \<and> binCount a' 3 = 1 \<and> binCount a' 4 = 1 \<and> binCount a' 5 = 0"
    using cnt unfolding lo hi z by simp
  then show ?thesis using S other run by blast
qed

text \<open>
  C7. On a label whose bins are all absent or zero (as after \<open>initData\<close>), applying
  \<open>addData\<close> for each interval of a list twice in succession gives, in every bin,
  twice the count that applying the list once gives.
\<close>

theorem addDataEach_twice_doubles:
  assumes "0 < S" and "data c label = Some a" and "\<forall>i. binCount a i = 0"
  shows "\<exists>a1 a2.
     addDataEach S label bs c = Inr (c\<lparr>data := (data c)(label \<mapsto> a1)\<rparr>) \<and>
     addDataEach S label bs (c\<lparr>data := (data c)(label \<mapsto> a1)\<rparr>)
        = Inr (c\<lparr>data := (data c)(label \<mapsto> a2)\<rparr>) \<and>
     (\<forall>i. binCount a2 i = 2 * binCount a1 i)"
proof -
  let ?n = "\<lambda>i. int (length (filter (\<lambda>b. chr c = chr b \<and> jsRound (of_int (start b) / S) \<le> i
                                   \<and> i \<le> jsRound (of_int (end' b) / S)) bs))"
  from addDataEach_Some[OF assms(2), of S bs] obtain a1 where
    r1: "addDataEach S label bs c = Inr (c\<lparr>data := (data c)(label \<mapsto> a1)\<rparr>)"
    and c1: "\<forall>i. binCount a1 i = binCount a i + ?n i" by blast
  let ?c1 = "c\<lparr>data := (data c)(label \<mapsto> a1)\<rparr>"
  have d1: "data ?c1 label = Some a1" by simp
  from addDataEach_Some[OF d1, of S bs] obtain a2 where
    r2: "addDataEach S label bs ?c1 = Inr (?c1\<lparr>data := (data ?c1)(label \<mapsto> a2)\<rparr>)"
    and c2: "\<forall>i. binCount a2 i = binCount a1 i +
       int (length (filter (\<lambda>b. chr ?c1 = chr b \<and> jsRound (of_int (start b) / S) \<le> i
                                   \<and> i \<le> jsRound (of_int (end' b) / S)) bs))" by blast
  have rec: "?c1\<lparr>data := (data ?c1)(label \<mapsto> a2)\<rparr> = c\<lparr>data := (data c)(label \<mapsto> a2)\<rparr>"
    by simp
  have "\<forall>i. binCount a2 i = 2 * binCount a1 i"
    using c1 c2 assms(3) by simp
  then show ?thesis using r1 r2 rec by (intro exI[of _ a1] exI[of _ a2]) simp
qed

theorem addDataEach_twice_doubles_witness:
  "(0::rat) < 100 \<and>
   data (initData ''default'' (Chromosome ''chr1'' 1000)) ''default'' = Some emptyArray \<and>
   (\<exists>a1 a2.
     addDataEach 100 ''default''
        [\<lparr>chr = ''chr1'', start = 250, end' = 350, name = []\<rparr>,
         \<lparr>chr = ''chr1'', start = 300, end' = 900, name = []\<rparr>]
        (initData ''default'' (Chromosome ''chr1'' 1000))
       = Inr ((initData ''default'' (Chromosome ''chr1'' 1000))
               \<lparr>data := (data (initData ''default'' (Chromosome ''chr1'' 1000)))(''default'' \<mapsto> a1)\<rparr>) \<and>
     addDataEach 100 ''default''
        [\<lparr>chr = ''chr1'', start = 250, end' = 350, name = []\<rparr>,
         \<lparr>chr = ''chr1'', start = 300, end' = 900, name = []\<rparr>]
        ((initData ''default'' (Chromosome ''chr1'' 1000))
               \<lparr>data := (data (initData ''default'' (Chromosome ''chr1'' 1000)))(''default'' \<mapsto> a1)\<rparr>)
       = Inr ((initData ''default'' (Chromosome ''chr1'' 1000))
               \<lparr>data := (data (initData ''default'' (Chromosome ''chr1'' 1000)))(''default'' \<mapsto> a2)\<rparr>) \<and>
     (\<forall>i. binCount a2 i = 2 * binCount a1 i))"
proof -
  let ?c = "initData ''default'' (Chromosome ''chr1'' 1000)"
  have S: "(0::rat) < 100" by simp
  have d: "data ?c ''default'' = Some emptyArray"
    by (simp add: initData_def Chromosome_def)
  have z: "\<forall>i. binCount emptyArray i = 0" by (simp add: binCount_def emptyArray_def)
  show ?thesis
    using S d addDataEach_twice_doubles[OF S d z] by blast
qed

text \<open>
  C6 (as amended). After \<open>initData\<close> the array of a new label is empty (length 0).
  After the intervals of a dataset have been rasterized its length is one more than the
  largest bin index that was incremented, and 0 when no interval of this chromosome was
  rasterized; bins are indexed from 0. When the chromosome length is not negative and
  no interval ends beyond it, the length is at most \<open>ceil(length / scale) + 1\<close>.
\<close>

theorem raster_length:
  assumes "0 < S" and "label \<notin> dom (data c)"
  shows "data (initData label c) label = Some emptyArray \<and> alength emptyArray = 0 \<and>
    (\<exists>a'. addDataEach S label bs (initData label c) = Inr (c\<lparr>data := (data c)(label \<mapsto> a')\<rparr>) \<and>
       (\<forall>b \<in> set bs. chr c = chr b \<and> jsRound (of_int (start b) / S) \<le> jsRound (of_int (end' b) / S)
            \<and> 0 \<le> jsRound (of_int (end' b) / S)
          \<longrightarrow> nat (jsRound (of_int (end' b) / S)) + 1 \<le> alength a') \<and>
       (alength a' = 0 \<or>
        (\<exists>b \<in> set bs. chr c = chr b \<and> jsRound (of_int (start b) / S) \<le> jsRound (of_int (end' b) / S)
            \<and> 0 \<le> jsRound (of_int (end' b) / S)
            \<and> alength a' = nat (jsRound (of_int (end' b) / S)) + 1)) \<and>
       (0 \<le> end' c \<and> (\<forall>b \<in> set bs. chr c = chr b \<longrightarrow> end' b \<le> end' c)
          \<longrightarrow> int (alength a') \<le> \<lceil>of_int (end' c) / S\<rceil> + 1))"
proof -
  let ?c0 = "initData label c"
  let ?ok = "\<lambda>b::'a region_scheme. chr c = chr b \<and> jsRound (of_int (start b) / S) \<le> jsRound (of_int (end' b) / S)
            \<and> 0 \<le> jsRound (of_int (end' b) / S)"
  have c0: "?c0 = c\<lparr>data := (data c)(label \<mapsto> emptyArray)\<rparr>"
    using assms(2) by (simp add: initData_def)
  have d0: "data ?c0 label = Some emptyArray" by (simp add: c0)
  have l0: "alength emptyArray = 0" by (simp add: emptyArray_def)
  from addDataEach_Some[OF d0, of S bs] obtain a' where
    run: "addDataEach S label bs ?c0 = Inr (?c0\<lparr>data := (data ?c0)(label \<mapsto> a')\<rparr>)"
    and lb: "\<forall>b \<in> set bs. chr ?c0 = chr b \<and> jsRound (of_int (start b) / S) \<le> jsRound (of_int (end' b) / S)
          \<and> 0 \<le> jsRound (of_int (end' b) / S)
        \<longrightarrow> nat (jsRound (of_int (end' b) / S)) + 1 \<le> alength a'"
    and ex: "alength a' = alength emptyArray \<or>
      (\<exists>b \<in> set bs. chr ?c0 = chr b \<and> jsRound (of_int (start b) / S) \<le> jsRound (of_int (end' b) / S)
          \<and> 0 \<le> jsRound (of_int (end' b) / S)
          \<and> alength a' = nat (jsRound (of_int (end' b) / S)) + 1)"
    by blast
  have ch: "chr ?c0 = chr c" by (simp add: c0)
  have rec: "?c0\<lparr>data := (data ?c0)(label \<mapsto> a')\<rparr> = c\<lparr>data := (data c)(label \<mapsto> a')\<rparr>"
    by (simp add: c0)
  have r: "addDataEach S label bs ?c0 = Inr (c\<lparr>data := (data c)(label \<mapsto> a')\<rparr>)"
    using run rec by simp
  have lb': "\<forall>b \<in> set bs. ?ok b \<longrightarrow> nat (jsRound (of_int (end' b) / S)) + 1 \<le> alength a'"
    using lb ch by simp
  have ex': "alength a' = 0 \<or> (\<exists>b \<in> set bs. ?ok b \<and> alength a' = nat (jsRound (of_int (end' b) / S)) + 1)"
    using ex ch l0 by simp
  have bound: "int (alength a') \<le> \<lceil>of_int (end' c) / S\<rceil> + 1"
    if h: "0 \<le> end' c \<and> (\<forall>b \<in> set bs. chr c = chr b \<longrightarrow> end' b \<le> end' c)"
  proof -
    have "(0::rat) \<le> of_int (end' c) / S" using h assms(1) by simp
    then have nn: "0 \<le> \<lceil>of_int (end' c) / S\<rceil>"
      using ceiling_mono[of 0 "of_int (end' c) / S"] by simp
    from ex' show ?thesis
    proof
      assume "alength a' = 0"
      then show ?thesis using nn by simp
    next
      assume "\<exists>b \<in> set bs. ?ok b \<and> alength a' = nat (jsRound (of_int (end' b) / S)) + 1"
      then obtain b where b: "b \<in> set bs" "?ok b" "alength a' = nat (jsRound (of_int (end' b) / S)) + 1"
        by blast
      have "end' b \<le> end' c" using h b(1,2) by blast
      then have "jsRound (of_int (end' b) / S) \<le> \<lceil>of_int (end' c) / S\<rceil>"
        by (rule jsRound_le_ceiling[OF assms(1)])
      then show ?thesis using b(2,3) by simp
    qed
  qed
  show ?thesis using d0 l0 r lb' ex' bound by blast
qed

theorem raster_length_witness:
  "(0::rat) < 100 \<and> ''default'' \<notin> dom (data (Chromosome ''chr1'' 1000)) \<and>
   (\<exists>a'. addDataEach 100 ''default'' [\<lparr>chr = ''chr1'', start = 250, end' = 350, name = []\<rparr>]
            (initData ''default'' (Chromosome ''chr1'' 1000))
          = Inr ((Chromosome ''chr1'' 1000)
                  \<lparr>data := (data (Chromosome ''chr1'' 1000))(''default'' \<mapsto> a')\<rparr>) \<and>
      alength a' = 5 \<and> int (alength a') \<le> 11)"
proof -
  let ?c = "Chromosome ''chr1'' 1000"
  let ?b = "\<lparr>chr = ''chr1'', start = 250, end' = 350, name = []\<rparr>"
  have S: "(0::rat) < 100" by simp
  have f: "''default'' \<notin> dom (data ?c)" by (simp add: Chromosome_def)
  have lo: "jsRound (of_int (start ?b) / 100) = 3" by (simp add: jsRound_def)
  have hi: "jsRound (of_int (end' ?b) / 100) = 4" by (simp add: jsRound_def)
  have ch: "chr ?c = chr ?b" by (simp add: Chromosome_def)
  have en: "0 \<le> end' ?c \<and> (\<forall>b \<in> set [?b]. chr ?c = chr b \<longrightarrow> end' b \<le> end' ?c)"
    by (simp add: Chromosome_def)
  have ce: "\<lceil>(of_int (end' ?c) :: rat) / 100\<rceil> + 1 = 11" by (simp add: Chromosome_def)
  from raster_length[OF S f, of "[?b]"]
  have "\<exists>a'. addDataEach 100 ''default'' [?b] (initData ''default'' ?c)
            = Inr (?c\<lparr>data := (data ?c)(''default'' \<mapsto> a')\<rparr>) \<and>
       (\<forall>b \<in> set [?b]. chr ?c = chr b \<and> jsRound (of_int (start b) / 100) \<le> jsRound (of_int (end' b) / 100)
            \<and> 0 \<le> jsRound (of_int (end' b) / 100)
          \<longrightarrow> nat (jsRound (of_int (end' b) / 100)) + 1 \<le> alength a') \<and>
       (alength a' = 0 \<or>
        (\<exists>b \<in> set [?b]. chr ?c = chr b \<and> jsRound (of_int (start b) / 100) \<le> jsRound (of_int (end' b) / 100)
            \<and> 0 \<le> jsRound (of_int (end' b) / 100)
            \<and> alength a' = nat (jsRound (of_int (end' b) / 100)) + 1)) \<and>
       (0 \<le> end' ?c \<and> (\<forall>b \<in> set [?b]. chr ?c = chr b \<longrightarrow> end' b \<le> end' ?c)
          \<longrightarrow> int (alength a') \<le> \<lceil>(of_int (end' ?c) :: rat) / 100\<rceil> + 1)"
    by blast
  then obtain a' where
    run: "addDataEach 100 ''default'' [?b] (initData ''default'' ?c)
            = Inr (?c\<lparr>data := (data ?c)(''default'' \<mapsto> a')\<rparr>)"
    and lb: "\<forall>b \<in> set [?b]. chr ?c = chr b \<and> jsRound (of_int (start b) / 100) \<le> jsRound (of_int (end' b) / 100)
            \<and> 0 \<le> jsRound (of_int (end' b) / 100)
          \<longrightarrow> nat (jsRound (of_int (end' b) / 100)) + 1 \<le> alength a'"
    and ex: "alength a' = 0 \<or>
        (\<exists>b \<in> set [?b]. chr ?c = chr b \<and> jsRound (of_int (start b) / 100) \<le> jsRound (of_int (end' b) / 100)
            \<and> 0 \<le> jsRound (of_int (end' b) / 100)
            \<and> alength a' = nat (jsRound (of_int (end' b) / 100)) + 1)"
    and bd: "0 \<le> end' ?c \<and> (\<forall>b \<in> set [?b]. chr ?c = chr b \<longrightarrow> end' b \<le> end' ?c)
          \<longrightarrow> int (alength a') \<le> \<lceil>(of_int (end' ?c) :: rat) / 100\<rceil> + 1"
    by blast
  have "5 \<le> alength a'" using lb ch lo hi by simp
  moreover have "alength a' = 0 \<or> alength a' = 5" using ex ch lo hi by simp
  ultimately have five: "alength a' = 5" by arith
  have "int (alength a') \<le> 11" using bd en ce by simp
  then show ?thesis using S f run five by blast
qed

text \<open>
  C6 as stated gives the arrays of \<open>chr1\<close> (length 1000) and \<open>chr2\<close> (length 500)
  at scale 100 the lengths 11 and 6. After the interval \<open>chr1 250 350\<close> the array
  of \<open>chr1\<close> has length 5 and the array of \<open>chr2\<close> has length 0.
\<close>

theorem raster_length_counterexample:
  "addDataEach 100 ''default'' [\<lparr>chr = ''chr1'', start = 250, end' = 350, name = []\<rparr>]
      (initData ''default'' (Chromosome ''chr1'' 1000))
     = Inr ((Chromosome ''chr1'' 1000)
             \<lparr>data := (data (Chromosome ''chr1'' 1000))
                (''default'' \<mapsto> arraySet (arraySet emptyArray 3 1) 4 1)\<rparr>) \<and>
   alength (arraySet (arraySet emptyArray 3 1) 4 1) = 5 \<and>
   \<lceil>(of_int (end' (Chromosome ''chr1'' 1000)) :: rat) / 100\<rceil> + 1 = 11 \<and>
   addDataEach 100 ''default'' [\<lparr>chr = ''chr1'', start = 250, end' = 350, name = []\<rparr>]
      (initData ''default'' (Chromosome ''chr2'' 500))
     = Inr ((Chromosome ''chr2'' 500)
             \<lparr>data := (data (Chromosome ''chr2'' 500))(''default'' \<mapsto> emptyArray)\<rparr>) \<and>
   alength emptyArray = 0 \<and>
   \<lceil>(of_int (end' (Chromosome ''chr2'' 500)) :: rat) / 100\<rceil> + 1 = 6"
proof -
  have e: "emptyArray = \<lparr>cells = Map.empty, alength = 0\<rparr>" by (simp add: emptyArray_def)
  have 1: "addDataEach 100 ''default'' [\<lparr>chr = ''chr1'', start = 250, end' = 350, name = []\<rparr>]
      (initData ''default'' (Chromosome ''chr1'' 1000))
     = Inr ((Chromosome ''chr1'' 1000)
             \<lparr>data := (data (Chromosome ''chr1'' 1000))
                (''default'' \<mapsto> arraySet (arraySet emptyArray 3 1) 4 1)\<rparr>)"
    by (simp add: addData_def addDataLoop.simps jsRound_def initData_def Chromosome_def e arraySet_def)
  have 2: "addDataEach 100 ''default'' [\<lparr>chr = ''chr1'', start = 250, end' = 350, name = []\<rparr>]
      (initData ''default'' (Chromosome ''chr2'' 500))
     = Inr ((Chromosome ''chr2'' 500)
             \<lparr>data := (data (Chromosome ''chr2'' 500))(''default'' \<mapsto> emptyArray)\<rparr>)"
    by (simp add: addData_def initData_def Chromosome_def)
  have 3: "alength (arraySet (arraySet emptyArray 3 1) 4 1) = 5" by (simp add: arraySet_def e)
  have 4: "\<lceil>(of_int (end' (Chromosome ''chr1'' 1000)) :: rat) / 100\<rceil> + 1 = 11"
    by (simp add: Chromosome_def)
  have 5: "\<lceil>(of_int (end' (Chromosome ''chr2'' 500)) :: rat) / 100\<rceil> + 1 = 6"
    by (simp add: Chromosome_def)
  have 6: "alength emptyArray = 0" by (simp add: e)
  show ?thesis by (intro conjI 1 2 3 4 5 6)
qed

subsection \<open>Cytobands and the centromere\<close>

lemma set_sort_cmp: "set (sort_cmp cmp xs) = set xs"
  using mset_sort_cmp[of cmp xs] by (metis set_mset_mset)

lemma addCytoband_fields:
  "\<exists>c'. addCytoband (Some b) c = Inr c' \<and>
     bands c' =
       (if gieStain b = Some ''acen''
        then (case centromere c of
                Some k \<Rightarrow> (bands c @ [b])[k := concat' ((bands c @ [b]) ! k) b]
              | None \<Rightarrow> bands c @ [b])
        else bands c @ [b]) \<and>
     cytobands c' =
       sort_cmp (\<lambda>i j. compare (bands c' ! i) (bands c' ! j)) (cytobands c @ [length (bands c)]) \<and>
     centromere c' =
       (if gieStain b = Some ''acen'' \<and> centromere c = None then Some (length (bands c))
        else centromere c) \<and>
     end' c' = max (end' c) (end' b) \<and>
     chr c' = chr c \<and> start c' = start c \<and> name c' = name c \<and> data c' = data c"
  by (cases "centromere c") (simp_all add: Let_def max_def)

lemma sorted_refs:
  "sorted_wrt (\<lambda>x y. compare x y \<le> 0)
     (map (\<lambda>r. B ! r) (sort_cmp (\<lambda>i j. compare (B ! i) (B ! j)) rs))"
proof -
  have "sorted_wrt (\<lambda>i j. compare (B ! i) (B ! j) \<le> 0) (sort_cmp (\<lambda>i j. compare (B ! i) (B ! j)) rs)"
  proof (rule sorted_sort_cmp)
    show "compare (B ! x) (B ! y) \<le> 0 \<or> compare (B ! y) (B ! x) \<le> 0" for x y
      by (rule compare_total)
    show "compare (B ! x) (B ! y) \<le> 0 \<Longrightarrow> compare (B ! y) (B ! z) \<le> 0
          \<Longrightarrow> compare (B ! x) (B ! z) \<le> 0" for x y z
      by (rule compare_trans)
  qed
  then show ?thesis by (simp add: sorted_wrt_map)
qed

lemma sorted_pair:
  assumes "mset xs = {#a, b#}" and "sorted_wrt P xs" and "\<not> P b a"
  shows "xs = [a, b]"
proof -
  have "length xs = 2" using assms(1) by (metis size_mset size_add_mset size_empty numeral_2_eq_2)
  then obtain x y where xs: "xs = [x, y]"
    by (cases xs; cases "tl xs") (auto simp: numeral_2_eq_2)
  have "(x = a \<and> y = b) \<or> (x = b \<and> y = a)"
    using assms(1) unfolding xs by (auto simp: add_eq_conv_ex)
  then show ?thesis using assms(2,3) xs by auto
qed

text \<open>
  C8. Every call of \<open>addCytoband\<close> with a band keeps the chromosome well formed and
  leaves the array \<open>cytobands\<close> sorted by the ordering of regions. The array then
  holds the new band and the bands it held before (the centromere with its end
  extended when the new band is an \<open>acen\<close> band and there is a centromere). The
  chromosome length stays at least the end of every band it owns; it becomes the new
  band's end when that is larger and is never reduced.
\<close>

theorem addCytoband_invariant:
  assumes wf: "wellFormed c"
    and le: "\<forall>x \<in> set (cytobandList c). end' x \<le> end' c"
  shows "\<exists>c'. addCytoband (Some b) c = Inr c' \<and>
     wellFormed c' \<and>
     sorted_wrt (\<lambda>x y. compare x y \<le> 0) (cytobandList c') \<and>
     mset (cytobandList c') =
       add_mset b (mset (map (\<lambda>r. if gieStain b = Some ''acen'' \<and> centromere c = Some r
                                    then concat' (bands c ! r) b else bands c ! r)
                             (cytobands c))) \<and>
     (\<forall>x \<in> set (cytobandList c'). end' x \<le> end' c') \<and>
     end' c' = max (end' c) (end' b)"
proof -
  from addCytoband_fields[of b c] obtain c' where
    run: "addCytoband (Some b) c = Inr c'"
    and B: "bands c' =
       (if gieStain b = Some ''acen''
        then (case centromere c of
                Some k \<Rightarrow> (bands c @ [b])[k := concat' ((bands c @ [b]) ! k) b]
              | None \<Rightarrow> bands c @ [b])
        else bands c @ [b])"
    and R: "cytobands c' =
       sort_cmp (\<lambda>i j. compare (bands c' ! i) (bands c' ! j)) (cytobands c @ [length (bands c)])"
    and C: "centromere c' =
       (if gieStain b = Some ''acen'' \<and> centromere c = None then Some (length (bands c))
        else centromere c)"
    and E: "end' c' = max (end' c) (end' b)"
    by blast
  let ?f = "\<lambda>r. if gieStain b = Some ''acen'' \<and> centromere c = Some r
                 then concat' (bands c ! r) b else bands c ! r"
  have len: "length (bands c') = length (bands c) + 1"
    by (simp add: B split: option.splits)
  have refs: "set (cytobands c') = insert (length (bands c)) (set (cytobands c))"
    by (simp add: R set_sort_cmp)
  have old: "\<forall>r \<in> set (cytobands c). r < length (bands c)"
    using wf by (simp add: wellFormed_def)
  have cen: "\<forall>k. centromere c = Some k \<longrightarrow> k < length (bands c)"
    using wf by (simp add: wellFormed_def)
  have wf': "wellFormed c'"
    unfolding wellFormed_def using old cen by (auto simp: refs len C split: if_splits)
  have srt: "sorted_wrt (\<lambda>x y. compare x y \<le> 0) (cytobandList c')"
    unfolding cytobandList_def by (subst R) (rule sorted_refs)
  have newb: "bands c' ! length (bands c) = b"
    using cen by (auto simp: B nth_append split: option.splits)
  have oldb: "bands c' ! r = ?f r" if r: "r \<in> set (cytobands c)" for r
  proof -
    have rl: "r < length (bands c)" using old r by blast
    show ?thesis
      using rl by (auto simp: B nth_append nth_list_update split: option.splits)
  qed
  have "mset (cytobandList c') = image_mset (\<lambda>r. bands c' ! r) (mset (cytobands c'))"
    by (simp add: cytobandList_def)
  also have "mset (cytobands c') = add_mset (length (bands c)) (mset (cytobands c))"
    by (simp add: R mset_sort_cmp)
  also have "image_mset (\<lambda>r. bands c' ! r) (add_mset (length (bands c)) (mset (cytobands c)))
      = add_mset b (image_mset (\<lambda>r. bands c' ! r) (mset (cytobands c)))"
    by (simp add: newb)
  also have "image_mset (\<lambda>r. bands c' ! r) (mset (cytobands c)) = image_mset ?f (mset (cytobands c))"
    by (rule image_mset_cong) (simp add: oldb)
  finally have ms: "mset (cytobandList c') = add_mset b (mset (map ?f (cytobands c)))"
    by simp
  have new: "end' (bands c' ! length (bands c)) \<le> end' c'"
    by (simp add: newb E)
  have keep: "end' (bands c' ! r) \<le> end' c'" if r: "r \<in> set (cytobands c)" for r
  proof -
    have "end' (bands c ! r) \<le> end' c" using le r by (simp add: cytobandList_def)
    then show ?thesis
      by (auto simp: oldb[OF r] E concat'_def)
  qed
  have bound: "\<forall>x \<in> set (cytobandList c'). end' x \<le> end' c'"
    unfolding cytobandList_def using new keep by (auto simp: refs)
  show ?thesis using run wf' srt ms bound E by blast
qed

theorem addCytoband_invariant_witness:
  "wellFormed \<lparr>chr = ''chr1'', start = 0, end' = 300, name = ''chr1'',
      bands = [\<lparr>chr = ''chr1'', start = 200, end' = 300, name = ''q1'', gieStain = Some ''gneg''\<rparr>],
      cytobands = [0], data = Map.empty, centromere = None\<rparr> \<and>
   cytobandList \<lparr>chr = ''chr1'', start = 0, end' = 300, name = ''chr1'',
      bands = [\<lparr>chr = ''chr1'', start = 200, end' = 300, name = ''q1'', gieStain = Some ''gneg''\<rparr>],
      cytobands = [0], data = Map.empty, centromere = None\<rparr>
     = [\<lparr>chr = ''chr1'', start = 200, end' = 300, name = ''q1'', gieStain = Some ''gneg''\<rparr>] \<and>
   (\<exists>c'. addCytoband
            (Some \<lparr>chr = ''chr1'', start = 0, end' = 100, name = ''p1'', gieStain = Some ''gpos50''\<rparr>)
            \<lparr>chr = ''chr1'', start = 0, end' = 300, name = ''chr1'',
              bands = [\<lparr>chr = ''chr1'', start = 200, end' = 300, name = ''q1'', gieStain = Some ''gneg''\<rparr>],
              cytobands = [0], data = Map.empty, centromere = None\<rparr> = Inr c' \<and>
      wellFormed c' \<and>
      cytobandList c' =
        [\<lparr>chr = ''chr1'', start = 0, end' = 100, name = ''p1'', gieStain = Some ''gpos50''\<rparr>,
         \<lparr>chr = ''chr1'', start = 200, end' = 300, name = ''q1'', gieStain = Some ''gneg''\<rparr>] \<and>
      end' c' = 300) \<and>
   (\<exists>c'. addCytoband
            (Some \<lparr>chr = ''chr1'', start = 300, end' = 450, name = ''q2'', gieStain = Some ''gvar''\<rparr>)
            \<lparr>chr = ''chr1'', start = 0, end' = 300, name = ''chr1'',
              bands = [\<lparr>chr = ''chr1'', start = 200, end' = 300, name = ''q1'', gieStain = Some ''gneg''\<rparr>],
              cytobands = [0], data = Map.empty, centromere = None\<rparr> = Inr c' \<and>
      wellFormed c' \<and>
      cytobandList c' =
        [\<lparr>chr = ''chr1'', start = 200, end' = 300, name = ''q1'', gieStain = Some ''gneg''\<rparr>,
         \<lparr>chr = ''chr1'', start = 300, end' = 450, name = ''q2'', gieStain = Some ''gvar''\<rparr>] \<and>
      end' c' = 450) \<and>
   (\<exists>c'. addCytoband
            (Some \<lparr>chr = ''chr1'', start = 120, end' = 140, name = ''q11'', gieStain = Some ''acen''\<rparr>)
            \<lparr>chr = ''chr1'', start = 0, end' = 120, name = ''chr1'',
              bands = [\<lparr>chr = ''chr1'', start = 100, end' = 120, name = ''p11'', gieStain = Some ''acen''\<rparr>],
              cytobands = [0], data = Map.empty, centromere = Some 0\<rparr> = Inr c' \<and>
      wellFormed c' \<and>
      cytobandList c' =
        [\<lparr>chr = ''chr1'', start = 100, end' = 140, name = ''p11'', gieStain = Some ''acen''\<rparr>,
         \<lparr>chr = ''chr1'', start = 120, end' = 140, name = ''q11'', gieStain = Some ''acen''\<rparr>] \<and>
      end' c' = 140)"
proof -
  let ?b1 = "\<lparr>chr = ''chr1'', start = 200, end' = 300, name = ''q1'', gieStain = Some ''gneg''\<rparr>"
  let ?b0 = "\<lparr>chr = ''chr1'', start = 0, end' = 100, name = ''p1'', gieStain = Some ''gpos50''\<rparr>"
  let ?b2 = "\<lparr>chr = ''chr1'', start = 300, end' = 450, name = ''q2'', gieStain = Some ''gvar''\<rparr>"
  let ?ba = "\<lparr>chr = ''chr1'', start = 100, end' = 120, name = ''p11'', gieStain = Some ''acen''\<rparr>"
  let ?ba' = "\<lparr>chr = ''chr1'', start = 100, end' = 140, name = ''p11'', gieStain = Some ''acen''\<rparr>"
  let ?bb = "\<lparr>chr = ''chr1'', start = 120, end' = 140, name = ''q11'', gieStain = Some ''acen''\<rparr>"
  let ?c1 = "\<lparr>chr = ''chr1'', start = 0, end' = 300, name = ''chr1'',
      bands = [?b1], cytobands = [0], data = Map.empty, centromere = None\<rparr>"
  let ?c2 = "\<lparr>chr = ''chr1'', start = 0, end' = 120, name = ''chr1'',
      bands = [?ba], cytobands = [0], data = Map.empty, centromere = Some 0\<rparr>"
  let ?P = "\<lambda>(x::cytoband) (y::cytoband). compare x y \<le> 0"
  have wf1: "wellFormed ?c1" by (simp add: wellFormed_def)
  have l1: "cytobandList ?c1 = [?b1]" by (simp add: cytobandList_def)
  have le1: "\<forall>x \<in> set (cytobandList ?c1). end' x \<le> end' ?c1" by (simp add: l1)
  have wf2: "wellFormed ?c2" by (simp add: wellFormed_def)
  have le2: "\<forall>x \<in> set (cytobandList ?c2). end' x \<le> end' ?c2" by (simp add: cytobandList_def)
  have A: "\<exists>c'. addCytoband (Some ?b0) ?c1 = Inr c' \<and> wellFormed c' \<and>
      cytobandList c' = [?b0, ?b1] \<and> end' c' = 300"
  proof -
    from addCytoband_invariant[OF wf1 le1, of ?b0] obtain c' where
      run: "addCytoband (Some ?b0) ?c1 = Inr c'" and w: "wellFormed c'"
      and srt: "sorted_wrt ?P (cytobandList c')"
      and ms: "mset (cytobandList c') =
        add_mset ?b0 (mset (map (\<lambda>r. if gieStain ?b0 = Some ''acen'' \<and> centromere ?c1 = Some r
                                    then concat' (bands ?c1 ! r) ?b0 else bands ?c1 ! r)
                             (cytobands ?c1)))"
      and e: "end' c' = max (end' ?c1) (end' ?b0)"
      by blast
    have "mset (cytobandList c') = {#?b0, ?b1#}" using ms by simp
    moreover have "\<not> ?P ?b1 ?b0" by (simp add: compare_def)
    ultimately have "cytobandList c' = [?b0, ?b1]" using srt by (intro sorted_pair)
    then show ?thesis using run w e by simp
  qed
  have B: "\<exists>c'. addCytoband (Some ?b2) ?c1 = Inr c' \<and> wellFormed c' \<and>
      cytobandList c' = [?b1, ?b2] \<and> end' c' = 450"
  proof -
    from addCytoband_invariant[OF wf1 le1, of ?b2] obtain c' where
      run: "addCytoband (Some ?b2) ?c1 = Inr c'" and w: "wellFormed c'"
      and srt: "sorted_wrt ?P (cytobandList c')"
      and ms: "mset (cytobandList c') =
        add_mset ?b2 (mset (map (\<lambda>r. if gieStain ?b2 = Some ''acen'' \<and> centromere ?c1 = Some r
                                    then concat' (bands ?c1 ! r) ?b2 else bands ?c1 ! r)
                             (cytobands ?c1)))"
      and e: "end' c' = max (end' ?c1) (end' ?b2)"
      by blast
    have "mset (cytobandList c') = {#?b1, ?b2#}" using ms by (simp add: add_mset_commute)
    moreover have "\<not> ?P ?b2 ?b1" by (simp add: compare_def)
    ultimately have "cytobandList c' = [?b1, ?b2]" using srt by (intro sorted_pair)
    then show ?thesis using run w e by simp
  qed
  have C: "\<exists>c'. addCytoband (Some ?bb) ?c2 = Inr c' \<and> wellFormed c' \<and>
      cytobandList c' = [?ba', ?bb] \<and> end' c' = 140"
  proof -
    from addCytoband_invariant[OF wf2 le2, of ?bb] obtain c' where
      run: "addCytoband (Some ?bb) ?c2 = Inr c'" and w: "wellFormed c'"
      and srt: "sorted_wrt ?P (cytobandList c')"
      and ms: "mset (cytobandList c') =
        add_mset ?bb (mset (map (\<lambda>r. if gieStain ?bb = Some ''acen'' \<and> centromere ?c2 = Some r
                                    then concat' (bands ?c2 ! r) ?bb else bands ?c2 ! r)
                             (cytobands ?c2)))"
      and e: "end' c' = max (end' ?c2) (end' ?bb)"
      by blast
    have "mset (cytobandList c') = {#?ba', ?bb#}"
      using ms by (simp add: add_mset_commute concat'_def)
    moreover have "\<not> ?P ?bb ?ba'" by (simp add: compare_def)
    ultimately have "cytobandList c' = [?ba', ?bb]" using srt by (intro sorted_pair)
    then show ?thesis using run w e by simp
  qed
  show ?thesis by (intro conjI wf1 l1 A B C)
qed

lemma addCytobands_with_centromere:
  "centromere c = Some k \<Longrightarrow> k < length (bands c) \<Longrightarrow>
   \<exists>c'. addCytobands bs c = Inr c' \<and> centromere c' = Some k \<and> k < length (bands c') \<and>
     bands c' ! k =
       (bands c ! k)\<lparr>end' := fold max (map end' (filter (\<lambda>b. gieStain b = Some ''acen'') bs))
                                (end' (bands c ! k))\<rparr>"
proof (induction bs arbitrary: c)
  case Nil
  then show ?case by simp
next
  case (Cons b bs)
  from addCytoband_fields[of b c] obtain c1 where
    run: "addCytoband (Some b) c = Inr c1"
    and B: "bands c1 =
       (if gieStain b = Some ''acen''
        then (case centromere c of
                Some k \<Rightarrow> (bands c @ [b])[k := concat' ((bands c @ [b]) ! k) b]
              | None \<Rightarrow> bands c @ [b])
        else bands c @ [b])"
    and C: "centromere c1 =
       (if gieStain b = Some ''acen'' \<and> centromere c = None then Some (length (bands c))
        else centromere c)"
    by blast
  have c1: "centromere c1 = Some k" using C Cons.prems by simp
  have l1: "k < length (bands c1)" using B Cons.prems by simp
  have b1: "bands c1 ! k =
     (if gieStain b = Some ''acen'' then (bands c ! k)\<lparr>end' := max (end' b) (end' (bands c ! k))\<rparr>
      else bands c ! k)"
    using B Cons.prems by (simp add: nth_append concat'_def max.commute)
  from Cons.IH[OF c1 l1] obtain c' where
    r2: "addCytobands bs c1 = Inr c'" and c2: "centromere c' = Some k"
    and l2: "k < length (bands c')"
    and b2: "bands c' ! k =
       (bands c1 ! k)\<lparr>end' := fold max (map end' (filter (\<lambda>b. gieStain b = Some ''acen'') bs))
                                (end' (bands c1 ! k))\<rparr>"
    by blast
  have "addCytobands (b # bs) c = Inr c'" using run r2 by simp
  moreover have "bands c' ! k =
       (bands c ! k)\<lparr>end' := fold max (map end' (filter (\<lambda>b. gieStain b = Some ''acen'') (b # bs)))
                                (end' (bands c ! k))\<rparr>"
    using b2 b1 by simp
  ultimately show ?case using c2 l2 by blast
qed

lemma addCytobands_no_centromere:
  "centromere c = None \<Longrightarrow>
   \<exists>c'. addCytobands bs c = Inr c' \<and>
     (case filter (\<lambda>b. gieStain b = Some ''acen'') bs of
        [] \<Rightarrow> centromere c' = None
      | a # as \<Rightarrow> (\<exists>k. centromere c' = Some k \<and> k < length (bands c') \<and>
                    bands c' ! k = a\<lparr>end' := fold max (map end' as) (end' a)\<rparr>))"
proof (induction bs arbitrary: c)
  case Nil
  then show ?case by simp
next
  case (Cons b bs)
  from addCytoband_fields[of b c] obtain c1 where
    run: "addCytoband (Some b) c = Inr c1"
    and B: "bands c1 =
       (if gieStain b = Some ''acen''
        then (case centromere c of
                Some k \<Rightarrow> (bands c @ [b])[k := concat' ((bands c @ [b]) ! k) b]
              | None \<Rightarrow> bands c @ [b])
        else bands c @ [b])"
    and C: "centromere c1 =
       (if gieStain b = Some ''acen'' \<and> centromere c = None then Some (length (bands c))
        else centromere c)"
    by blast
  show ?case
  proof (cases "gieStain b = Some ''acen''")
    case False
    then have "centromere c1 = None" using C Cons.prems by simp
    from Cons.IH[OF this] show ?thesis using run False by simp
  next
    case True
    let ?k = "length (bands c)"
    have c1: "centromere c1 = Some ?k" using C True Cons.prems by simp
    have l1: "?k < length (bands c1)" using B True Cons.prems by simp
    have b1: "bands c1 ! ?k = b" using B True Cons.prems by simp
    from addCytobands_with_centromere[OF c1 l1, of bs] obtain c' where
      r2: "addCytobands bs c1 = Inr c'" and c2: "centromere c' = Some ?k"
      and l2: "?k < length (bands c')"
      and b2: "bands c' ! ?k =
         (bands c1 ! ?k)\<lparr>end' := fold max (map end' (filter (\<lambda>b. gieStain b = Some ''acen'') bs))
                                  (end' (bands c1 ! ?k))\<rparr>"
      by blast
    have "addCytobands (b # bs) c = Inr c'" using run r2 by simp
    then show ?thesis using True c2 l2 b2 b1 by simp
  qed
qed

lemma fold_max_Max: "fold max (map f xs) (f x) = Max (f ` set (x # xs))"
  for f :: "'a \<Rightarrow> int"
proof -
  have "Max (set (f x # map f xs)) = fold max (map f xs) (f x)"
    by (rule Max.set_eq_fold)
  moreover have "set (f x # map f xs) = f ` set (x # xs)" by simp
  ultimately show ?thesis by (simp only:)
qed

text \<open>
  C5. On a chromosome without a centromere, after any sequence of \<open>addCytoband\<close>
  calls the centromere is the first band with stain \<open>acen\<close> that was added, with its
  end replaced by the largest end of all \<open>acen\<close> bands added; its start is never
  moved, whatever the order of the bands. Without an \<open>acen\<close> band there is no
  centromere.
\<close>

theorem centromere_first_acen_max_end:
  assumes "centromere c = None"
  shows "\<exists>c'. addCytobands bs c = Inr c' \<and>
     (case filter (\<lambda>b. gieStain b = Some ''acen'') bs of
        [] \<Rightarrow> centromereBand c' = None
      | a # as \<Rightarrow> centromereBand c' = Some (a\<lparr>end' := Max (end' ` set (a # as))\<rparr>))"
proof -
  from addCytobands_no_centromere[OF assms, of bs] obtain c' where
    run: "addCytobands bs c = Inr c'"
    and cen: "case filter (\<lambda>b. gieStain b = Some ''acen'') bs of
        [] \<Rightarrow> centromere c' = None
      | a # as \<Rightarrow> (\<exists>k. centromere c' = Some k \<and> k < length (bands c') \<and>
                    bands c' ! k = a\<lparr>end' := fold max (map end' as) (end' a)\<rparr>)"
    by blast
  have "case filter (\<lambda>b. gieStain b = Some ''acen'') bs of
        [] \<Rightarrow> centromereBand c' = None
      | a # as \<Rightarrow> centromereBand c' = Some (a\<lparr>end' := Max (end' ` set (a # as))\<rparr>)"
  proof (cases "filter (\<lambda>b. gieStain b = Some ''acen'') bs")
    case Nil
    then show ?thesis using cen by (simp add: centromereBand_def)
  next
    case (Cons a as)
    then obtain k where "centromere c' = Some k"
      "bands c' ! k = a\<lparr>end' := fold max (map end' as) (end' a)\<rparr>"
      using cen by auto
    then show ?thesis using Cons fold_max_Max[of end' as a]
      by (simp add: centromereBand_def)
  qed
  then show ?thesis using run by blast
qed

theorem centromere_first_acen_max_end_witness:
  "centromere (Chromosome ''chr1'' 1000) = None \<and>
   (\<exists>c'. addCytobands
            [\<lparr>chr = ''chr1'', start = 120, end' = 140, name = ''q11'', gieStain = Some ''acen''\<rparr>,
             \<lparr>chr = ''chr1'', start = 0, end' = 100, name = ''p12'', gieStain = Some ''gneg''\<rparr>,
             \<lparr>chr = ''chr1'', start = 100, end' = 120, name = ''p11'', gieStain = Some ''acen''\<rparr>]
            (Chromosome ''chr1'' 1000) = Inr c' \<and>
      centromereBand c' =
        Some \<lparr>chr = ''chr1'', start = 120, end' = 140, name = ''q11'', gieStain = Some ''acen''\<rparr>)"
proof -
  let ?c = "Chromosome ''chr1'' 1000"
  let ?bs = "[\<lparr>chr = ''chr1'', start = 120, end' = 140, name = ''q11'', gieStain = Some ''acen''\<rparr>,
             \<lparr>chr = ''chr1'', start = 0, end' = 100, name = ''p12'', gieStain = Some ''gneg''\<rparr>,
             \<lparr>chr = ''chr1'', start = 100, end' = 120, name = ''p11'', gieStain = Some ''acen''\<rparr>]"
  have n: "centromere ?c = None" by (simp add: Chromosome_def)
  from centromere_first_acen_max_end[OF n, of ?bs] obtain c' where
    run: "addCytobands ?bs ?c = Inr c'"
    and cen: "case filter (\<lambda>b. gieStain b = Some ''acen'') ?bs of
        [] \<Rightarrow> centromereBand c' = None
      | a # as \<Rightarrow> centromereBand c' = Some (a\<lparr>end' := Max (end' ` set (a # as))\<rparr>)"
    by blast
  have "centromereBand c' =
        Some \<lparr>chr = ''chr1'', start = 120, end' = 140, name = ''q11'', gieStain = Some ''acen''\<rparr>"
    using cen by simp
  then show ?thesis using n run by blast
qed

subsection \<open>Band geometry and appearance\<close>

lemma drawArms_single:
  "drawArms S ov c y ps [arm] = drawArm S ov c y arm ps"
  by (simp split: sum.splits)

text \<open>
  C4. \<open>drawSelf\<close> on a chromosome (whose start is 0, as the constructor sets it)
  takes exactly one of three ways. With cytobands and a centromere there are two
  arms, from 0 to the centromere's start and from the centromere's end to the length,
  drawn one after the other. With cytobands and no centromere there is one arm, the
  whole chromosome. Without cytobands there are no arms and one bar is drawn. A
  chromosome of length 1000 whose only band is an \<open>acen\<close> band from 100 to 120 has the
  arms 0 to 100 and 120 to 1000.
\<close>

theorem drawSelf_modes:
  assumes "start c = 0"
  shows
   "(cytobands c \<noteq> [] \<and> centromere c = Some k \<longrightarrow>
       arms c = Some [\<lparr>chr = chr c, start = 0, end' = start (bands c ! k), name = name c @ ''_arm_1''\<rparr>,
                      \<lparr>chr = chr c, start = end' (bands c ! k), end' = end' c, name = name c @ ''_arm_2''\<rparr>] \<and>
       drawSelf S ov c ps y =
         (case drawArm S ov c y
                 \<lparr>chr = chr c, start = 0, end' = start (bands c ! k), name = name c @ ''_arm_1''\<rparr> ps of
            Inl err \<Rightarrow> Inl err
          | Inr elems1 \<Rightarrow>
              (case drawArm S ov c y
                      \<lparr>chr = chr c, start = end' (bands c ! k), end' = end' c,
                        name = name c @ ''_arm_2''\<rparr> ps of
                 Inl err \<Rightarrow> Inl err
               | Inr elems2 \<Rightarrow> Inr (elems1 @ elems2)))) \<and>
    (cytobands c \<noteq> [] \<and> centromere c = None \<longrightarrow>
       arms c = Some [\<lparr>chr = chr c, start = 0, end' = end' c, name = name c\<rparr>] \<and>
       drawSelf S ov c ps y =
         drawArm S ov c y \<lparr>chr = chr c, start = 0, end' = end' c, name = name c\<rparr> ps) \<and>
    (cytobands c = [] \<longrightarrow>
       arms c = None \<and>
       drawSelf S ov c ps y =
         Inr [Elem ''rect''
                [(''x'', Num 0), (''y'', Num y), (''width'', Num (of_int (end' c) / S)),
                 (''height'', Num (chromosomeBarHeight ps)), (''fill'', Str ''#000000'')] []])"
proof (intro conjI impI)
  assume h: "cytobands c \<noteq> [] \<and> centromere c = Some k"
  show "arms c = Some [\<lparr>chr = chr c, start = 0, end' = start (bands c ! k), name = name c @ ''_arm_1''\<rparr>,
                      \<lparr>chr = chr c, start = end' (bands c ! k), end' = end' c, name = name c @ ''_arm_2''\<rparr>]"
    using h assms by (simp add: arms_def)
  then show "drawSelf S ov c ps y =
         (case drawArm S ov c y
                 \<lparr>chr = chr c, start = 0, end' = start (bands c ! k), name = name c @ ''_arm_1''\<rparr> ps of
            Inl err \<Rightarrow> Inl err
          | Inr elems1 \<Rightarrow>
              (case drawArm S ov c y
                      \<lparr>chr = chr c, start = end' (bands c ! k), end' = end' c,
                        name = name c @ ''_arm_2''\<rparr> ps of
                 Inl err \<Rightarrow> Inl err
               | Inr elems2 \<Rightarrow> Inr (elems1 @ elems2)))"
    by (simp add: drawSelf_def split: sum.splits)
next
  assume h: "cytobands c \<noteq> [] \<and> centromere c = None"
  show "arms c = Some [\<lparr>chr = chr c, start = 0, end' = end' c, name = name c\<rparr>]"
    using h assms by (simp add: arms_def)
  then show "drawSelf S ov c ps y =
         drawArm S ov c y \<lparr>chr = chr c, start = 0, end' = end' c, name = name c\<rparr> ps"
    by (simp add: drawSelf_def drawArms_single del: drawArms.simps)
next
  assume h: "cytobands c = []"
  then show "arms c = None" by (simp add: arms_def)
  then show "drawSelf S ov c ps y =
         Inr [Elem ''rect''
                [(''x'', Num 0), (''y'', Num y), (''width'', Num (of_int (end' c) / S)),
                 (''height'', Num (chromosomeBarHeight ps)), (''fill'', Str ''#000000'')] []]"
    by (simp add: drawSelf_def)
qed

theorem drawSelf_modes_witness:
  "addCytoband (Some \<lparr>chr = ''chr1'', start = 100, end' = 120, name = ''p11'', gieStain = Some ''acen''\<rparr>)
      (Chromosome ''chr1'' 1000)
     = Inr \<lparr>chr = ''chr1'', start = 0, end' = 1000, name = ''chr1'',
            bands = [\<lparr>chr = ''chr1'', start = 100, end' = 120, name = ''p11'', gieStain = Some ''acen''\<rparr>],
            cytobands = [0], data = Map.empty, centromere = Some 0\<rparr> \<and>
   arms \<lparr>chr = ''chr1'', start = 0, end' = 1000, name = ''chr1'',
          bands = [\<lparr>chr = ''chr1'', start = 100, end' = 120, name = ''p11'', gieStain = Some ''acen''\<rparr>],
          cytobands = [0], data = Map.empty, centromere = Some 0\<rparr>
     = Some [\<lparr>chr = ''chr1'', start = 0, end' = 100, name = ''chr1_arm_1''\<rparr>,
             \<lparr>chr = ''chr1'', start = 120, end' = 1000, name = ''chr1_arm_2''\<rparr>] \<and>
   arms \<lparr>chr = ''chr2'', start = 0, end' = 500, name = ''chr2'',
          bands = [\<lparr>chr = ''chr2'', start = 0, end' = 500, name = ''q1'', gieStain = Some ''gneg''\<rparr>],
          cytobands = [0], data = Map.empty, centromere = None\<rparr>
     = Some [\<lparr>chr = ''chr2'', start = 0, end' = 500, name = ''chr2''\<rparr>] \<and>
   arms (Chromosome ''chr1'' 1000) = None \<and>
   drawSelf 100 (\<lambda>arm band. True) (Chromosome ''chr1'' 1000)
      \<lparr>height = 5, inGap = 2, cytobandIdeo = None, cytobandHeight = 10,
       chromosomeBarHeight = 1, labels = [], args = []\<rparr> 0
     = Inr [Elem ''rect''
              [(''x'', Num 0), (''y'', Num 0), (''width'', Num 10),
               (''height'', Num 1), (''fill'', Str ''#000000'')] []]"
proof -
  let ?b = "\<lparr>chr = ''chr1'', start = 100, end' = 120, name = ''p11'', gieStain = Some ''acen''\<rparr>"
  let ?c = "\<lparr>chr = ''chr1'', start = 0, end' = 1000, name = ''chr1'',
          bands = [?b], cytobands = [0], data = Map.empty, centromere = Some 0\<rparr>"
  let ?d = "\<lparr>chr = ''chr2'', start = 0, end' = 500, name = ''chr2'',
          bands = [\<lparr>chr = ''chr2'', start = 0, end' = 500, name = ''q1'', gieStain = Some ''gneg''\<rparr>],
          cytobands = [0], data = Map.empty, centromere = None\<rparr>"
  let ?ps = "\<lparr>height = 5, inGap = 2, cytobandIdeo = None, cytobandHeight = 10,
       chromosomeBarHeight = 1, labels = [], args = []\<rparr>"
  let ?ov = "\<lambda>(arm::region) (band::cytoband). True"
  have add: "addCytoband (Some ?b) (Chromosome ''chr1'' 1000) = Inr ?c"
    by (simp add: Chromosome_def Let_def sort_cmp_def)
  have s: "start ?c = 0" by simp
  have h: "cytobands ?c \<noteq> [] \<and> centromere ?c = Some 0" by simp
  from drawSelf_modes[OF s, of 0 100 ?ov ?ps 0] h
  have "arms ?c = Some [\<lparr>chr = chr ?c, start = 0, end' = start (bands ?c ! 0), name = name ?c @ ''_arm_1''\<rparr>,
                      \<lparr>chr = chr ?c, start = end' (bands ?c ! 0), end' = end' ?c, name = name ?c @ ''_arm_2''\<rparr>]"
    by blast
  then have a: "arms ?c = Some [\<lparr>chr = ''chr1'', start = 0, end' = 100, name = ''chr1_arm_1''\<rparr>,
             \<lparr>chr = ''chr1'', start = 120, end' = 1000, name = ''chr1_arm_2''\<rparr>]"
    by simp
  have sd: "start ?d = 0" by simp
  have hd: "cytobands ?d \<noteq> [] \<and> centromere ?d = None" by simp
  from drawSelf_modes[OF sd, of 0 100 ?ov ?ps 0] hd
  have "arms ?d = Some [\<lparr>chr = chr ?d, start = 0, end' = end' ?d, name = name ?d\<rparr>]"
    by blast
  then have b: "arms ?d = Some [\<lparr>chr = ''chr2'', start = 0, end' = 500, name = ''chr2''\<rparr>]"
    by simp
  have s0: "start (Chromosome ''chr1'' 1000) = 0" by (simp add: Chromosome_def)
  have h0: "cytobands (Chromosome ''chr1'' 1000) = []" by (simp add: Chromosome_def)
  from drawSelf_modes[OF s0, of 0 100 ?ov ?ps 0] h0
  have n: "arms (Chromosome ''chr1'' 1000) = None"
    and bar: "drawSelf 100 ?ov (Chromosome ''chr1'' 1000) ?ps 0 =
         Inr [Elem ''rect''
            [(''x'', Num 0), (''y'', Num 0), (''width'', Num (of_int (end' (Chromosome ''chr1'' 1000)) / 100)),
             (''height'', Num (chromosomeBarHeight ?ps)), (''fill'', Str ''#000000'')] []]"
    by blast+
  have bar': "drawSelf 100 ?ov (Chromosome ''chr1'' 1000) ?ps 0 =
     Inr [Elem ''rect''
          [(''x'', Num 0), (''y'', Num 0), (''width'', Num 10),
           (''height'', Num 1), (''fill'', Str ''#000000'')] []]"
    unfolding bar by (simp add: Chromosome_def)
  show ?thesis by (intro conjI add a b n bar')
qed

lemma startsWith_take: "startsWith p s = (take (length p) s = p)"
  by (induction p s rule: startsWith.induct) auto

lemma matchGpos_digits:
  assumes "ds \<noteq> []" and "\<forall>d \<in> set ds. isDigit d" and "rest = [] \<or> \<not> isDigit (hd rest)"
  shows "matchGpos (''gpos'' @ ds @ rest) = Some ds"
proof -
  have r: "takeWhile isDigit rest = []" using assms(3) by (cases rest) auto
  have tw: "takeWhile isDigit (ds @ rest) = ds"
    using assms(2) r by (simp add: takeWhile_append2)
  show ?thesis using assms(1) by (simp add: matchGpos_def Let_def tw)
qed

lemma matchGpos_none:
  assumes "\<forall>d rest. isDigit d \<longrightarrow> stain \<noteq> ''gpos'' @ d # rest"
  shows "matchGpos stain = None"
proof (cases "startsWith ''gpos'' stain")
  case False
  then show ?thesis by (simp add: matchGpos_def)
next
  case True
  then have "take (length ''gpos'') stain = ''gpos''" by (simp only: startsWith_take)
  then have "take 4 stain = ''gpos''" by (simp add: eval_nat_numeral)
  then have st: "stain = ''gpos'' @ drop 4 stain" by (metis append_take_drop_id)
  have "takeWhile isDigit (drop 4 stain) = []"
  proof (cases "drop 4 stain")
    case Nil
    then show ?thesis by simp
  next
    case (Cons d rest)
    then have "stain = ''gpos'' @ d # rest" using st by simp
    then have "\<not> isDigit d" using assms by blast
    then show ?thesis using Cons by simp
  qed
  then show ?thesis by (simp add: matchGpos_def Let_def)
qed

lemma clamp_let:
  "(let gposValue = x in if gposValue < 0 then 0 else if gposValue > 1 then 1 else gposValue)
     = max 0 (min 1 (x::rat))"
  by (simp add: Let_def max_def min_def)

lemma opacity_table:
  assumes "gieStain band = Some stain"
  shows "\<exists>v. getCytobandOpacity band = Inr v \<and> 0 \<le> v \<and> v \<le> 1 \<and>
     (stain = ''gneg'' \<longrightarrow> v = 0) \<and>
     (\<forall>ds rest. stain = ''gpos'' @ ds @ rest \<and> ds \<noteq> [] \<and> (\<forall>d \<in> set ds. isDigit d) \<and>
         (rest = [] \<or> \<not> isDigit (hd rest)) \<longrightarrow>
        v = max 0 (min 1 (of_nat (parseDigits ds) / 100))) \<and>
     (stain = ''gpos100'' \<or> stain = ''gvar'' \<longrightarrow> v = 1) \<and>
     (stain = ''stalk'' \<longrightarrow> v = 3 / 4) \<and>
     (stain \<noteq> ''gneg'' \<and> stain \<noteq> ''gvar'' \<and> stain \<noteq> ''stalk'' \<and>
      (\<forall>d rest. isDigit d \<longrightarrow> stain \<noteq> ''gpos'' @ d # rest) \<longrightarrow> v = 0)"
proof -
  define w :: rat where
    "w = (case matchGpos stain of None \<Rightarrow> 0
          | Some digits \<Rightarrow> max 0 (min 1 (of_nat (parseDigits digits) / 100)))"
  define v :: rat where
    "v = (if stain = ''stalk'' then 3 / 4
          else if stain = ''gpos100'' \<or> stain = ''gvar'' then 1
          else if stain = ''gneg'' then 0 else w)"
  have w: "0 \<le> w \<and> w \<le> 1" by (simp add: w_def split: option.splits)
  have run: "getCytobandOpacity band = Inr v"
    by (simp add: getCytobandOpacity_def assms v_def w_def clamp_let cong: option.case_cong)
  have r0: "0 \<le> v" and r1: "v \<le> 1" using w by (simp_all add: v_def)
  have gneg: "stain = ''gneg'' \<longrightarrow> v = 0" by (simp add: v_def)
  have one: "stain = ''gpos100'' \<or> stain = ''gvar'' \<longrightarrow> v = 1" by (auto simp: v_def)
  have stalk: "stain = ''stalk'' \<longrightarrow> v = 3 / 4" by (simp add: v_def)
  have gpos: "\<forall>ds rest. stain = ''gpos'' @ ds @ rest \<and> ds \<noteq> [] \<and> (\<forall>d \<in> set ds. isDigit d) \<and>
         (rest = [] \<or> \<not> isDigit (hd rest)) \<longrightarrow>
        v = max 0 (min 1 (of_nat (parseDigits ds) / 100))"
  proof (intro allI impI)
    fix ds rest
    assume h: "stain = ''gpos'' @ ds @ rest \<and> ds \<noteq> [] \<and> (\<forall>d \<in> set ds. isDigit d) \<and>
         (rest = [] \<or> \<not> isDigit (hd rest))"
    have m: "matchGpos stain = Some ds"
      using matchGpos_digits[of ds rest] h by simp
    have ne: "stain \<noteq> ''stalk''" "stain \<noteq> ''gvar''" "stain \<noteq> ''gneg''"
      using h by auto
    show "v = max 0 (min 1 (of_nat (parseDigits ds) / 100))"
    proof (cases "stain = ''gpos100''")
      case True
      then have "matchGpos ''gpos100'' = Some ds" using m by simp
      moreover have "matchGpos ''gpos100'' = Some ''100''"
        by (simp add: matchGpos_def isDigit_def)
      ultimately have "ds = ''100''" by simp
      then have "parseDigits ds = 100" by (simp add: parseDigits_def digitValue_def)
      then show ?thesis using True by (simp add: v_def)
    next
      case False
      then show ?thesis using ne m by (simp add: v_def w_def)
    qed
  qed
  have unrec: "stain \<noteq> ''gneg'' \<and> stain \<noteq> ''gvar'' \<and> stain \<noteq> ''stalk'' \<and>
      (\<forall>d rest. isDigit d \<longrightarrow> stain \<noteq> ''gpos'' @ d # rest) \<longrightarrow> v = 0"
  proof (intro impI)
    assume h: "stain \<noteq> ''gneg'' \<and> stain \<noteq> ''gvar'' \<and> stain \<noteq> ''stalk'' \<and>
      (\<forall>d rest. isDigit d \<longrightarrow> stain \<noteq> ''gpos'' @ d # rest)"
    then have a: "\<forall>d rest. isDigit d \<longrightarrow> stain \<noteq> ''gpos'' @ d # rest" by (elim conjE)
    have m: "matchGpos stain = None" using a by (rule matchGpos_none)
    have "isDigit (CHR ''1'')" by (simp add: isDigit_def)
    then have "stain \<noteq> ''gpos'' @ CHR ''1'' # ''00''" using a by (elim allE impE)
    then have "stain \<noteq> ''gpos100''" by simp
    then show "v = 0" using h m by (simp add: v_def w_def)
  qed
  show ?thesis
    by (intro exI[of _ v] conjI run r0 r1 gneg gpos one stalk unrec)
qed

lemma opacity_None: "gieStain band = None \<Longrightarrow> getCytobandOpacity band = Inl TypeError"
  by (simp add: getCytobandOpacity_def)

lemma hatch_drawBand:
  "drawBand S ov y arm ps band = Inr es \<Longrightarrow>
   filter isHatchFill es =
     (if ov arm band \<and> (gieStain band = Some ''gvar'' \<or> gieStain band = Some ''stalk'')
      then [Elem ''rect''
              [(''x'', Num (of_int (start band) / S)),
               (''y'', Num y),
               (''clip-path'', Str (''url(#'' @ name arm @ '')'')),
               (''width'', Num (of_int (end' band - start band) / S)),
               (''height'', Num (cytobandHeight ps)),
               (''stroke'', Str ''none''),
               (''fill'', Str ''url(#hatch_fill)'')] []]
      else []) \<and>
   (ov arm band \<longrightarrow>
      length es = (if gieStain band = Some ''gvar'' \<or> gieStain band = Some ''stalk'' then 2 else 1) \<and>
      \<not> isHatchFill (hd es) \<and> filter isHatchFill es = tl es)"
  by (auto simp: drawBand_def cytobandColor_def split: if_splits sum.splits)

lemma drawBand_returns:
  "gieStain band \<noteq> None \<or> \<not> ov arm band \<Longrightarrow> \<exists>es. drawBand S ov y arm ps band = Inr es"
  by (cases "gieStain band") (auto simp: drawBand_def getCytobandOpacity_def)

lemma hatch_drawBands:
  "drawBands S ov y arm ps bs = Inr es \<Longrightarrow>
   length (filter isHatchFill es) =
   length (filter (\<lambda>b. ov arm b \<and> (gieStain b = Some ''gvar'' \<or> gieStain b = Some ''stalk'')) bs)"
proof (induction bs arbitrary: es)
  case Nil
  then show ?case by simp
next
  case (Cons b bs)
  from Cons.prems obtain e1 e2 where
    a: "drawBand S ov y arm ps b = Inr e1" and r: "drawBands S ov y arm ps bs = Inr e2"
    and e: "es = e1 @ e2"
    by (auto split: sum.splits)
  have "filter isHatchFill e1 =
     (if ov arm b \<and> (gieStain b = Some ''gvar'' \<or> gieStain b = Some ''stalk'')
      then [Elem ''rect''
              [(''x'', Num (of_int (start b) / S)),
               (''y'', Num y),
               (''clip-path'', Str (''url(#'' @ name arm @ '')'')),
               (''width'', Num (of_int (end' b - start b) / S)),
               (''height'', Num (cytobandHeight ps)),
               (''stroke'', Str ''none''),
               (''fill'', Str ''url(#hatch_fill)'')] []]
      else [])"
    using hatch_drawBand[OF a] by blast
  then show ?case using Cons.IH[OF r] e by simp
qed

lemma drawBands_return:
  "\<forall>b \<in> set bs. ov arm b \<longrightarrow> gieStain b \<noteq> None \<Longrightarrow> \<exists>es. drawBands S ov y arm ps bs = Inr es"
proof (induction bs)
  case Nil
  then show ?case by simp
next
  case (Cons b bs)
  have "gieStain b \<noteq> None \<or> \<not> ov arm b" using Cons.prems by auto
  then obtain e1 where "drawBand S ov y arm ps b = Inr e1"
    using drawBand_returns[where band = b and ov = ov and arm = arm] by blast
  moreover obtain e2 where "drawBands S ov y arm ps bs = Inr e2" using Cons by auto
  ultimately show ?case by simp
qed

lemma hatch_drawArm:
  "drawArm S ov c y arm ps = Inr es \<Longrightarrow>
   length (filter isHatchFill es) =
   length (filter (\<lambda>b. ov arm b \<and> (gieStain b = Some ''gvar'' \<or> gieStain b = Some ''stalk''))
             (cytobandList c))"
  by (auto simp: drawArm_def hatch_drawBands split: sum.splits)

lemma drawArm_returns:
  "\<forall>b \<in> set (cytobandList c). ov arm b \<longrightarrow> gieStain b \<noteq> None \<Longrightarrow>
   \<exists>es. drawArm S ov c y arm ps = Inr es"
  using drawBands_return[of "cytobandList c" ov arm S y ps]
  by (auto simp: drawArm_def)

text \<open>
  C9 (as amended). For a cytoband that has a stain, \<open>getCytobandOpacity\<close> returns a
  value in \<open>[0, 1]\<close>: 0 for \<open>gneg\<close>; \<open>NN / 100\<close> clamped to \<open>[0, 1]\<close> for every
  stain that begins with \<open>gpos\<close> and at least one digit, \<open>NN\<close> being the digits up
  to the first character that is not a digit, whatever follows them; 1 for
  \<open>gpos100\<close> and \<open>gvar\<close>; 0.75 for \<open>stalk\<close>; and 0 for every other stain. For a
  cytoband without a stain it throws. Among the bands \<open>drawArm\<close> draws (those the
  arm overlaps), exactly the bands with stain \<open>gvar\<close> or \<open>stalk\<close> get a hatch fill,
  placed right after the band's normal fill; the drawing returns when every band the
  arm overlaps has a stain.
\<close>

theorem getCytobandOpacity_table:
  "(gieStain band = None \<longrightarrow> getCytobandOpacity band = Inl TypeError) \<and>
   (\<forall>stain. gieStain band = Some stain \<longrightarrow>
      (\<exists>v. getCytobandOpacity band = Inr v \<and> 0 \<le> v \<and> v \<le> 1 \<and>
         (stain = ''gneg'' \<longrightarrow> v = 0) \<and>
         (\<forall>ds rest. stain = ''gpos'' @ ds @ rest \<and> ds \<noteq> [] \<and> (\<forall>d \<in> set ds. isDigit d) \<and>
             (rest = [] \<or> \<not> isDigit (hd rest)) \<longrightarrow>
            v = max 0 (min 1 (of_nat (parseDigits ds) / 100))) \<and>
         (stain = ''gpos100'' \<or> stain = ''gvar'' \<longrightarrow> v = 1) \<and>
         (stain = ''stalk'' \<longrightarrow> v = 3 / 4) \<and>
         (stain \<noteq> ''gneg'' \<and> stain \<noteq> ''gvar'' \<and> stain \<noteq> ''stalk'' \<and>
          (\<forall>d rest. isDigit d \<longrightarrow> stain \<noteq> ''gpos'' @ d # rest) \<longrightarrow> v = 0))) \<and>
   (gieStain band \<noteq> None \<or> \<not> ov arm band \<longrightarrow> (\<exists>es. drawBand S ov y arm ps band = Inr es)) \<and>
   (\<forall>es. drawBand S ov y arm ps band = Inr es \<longrightarrow>
      ((\<exists>e \<in> set es. isHatchFill e) \<longleftrightarrow>
         ov arm band \<and> (gieStain band = Some ''gvar'' \<or> gieStain band = Some ''stalk'')) \<and>
      (ov arm band \<longrightarrow>
         length es = (if gieStain band = Some ''gvar'' \<or> gieStain band = Some ''stalk'' then 2 else 1) \<and>
         \<not> isHatchFill (hd es) \<and> filter isHatchFill es = tl es)) \<and>
   ((\<forall>b \<in> set (cytobandList c). ov arm b \<longrightarrow> gieStain b \<noteq> None) \<longrightarrow>
      (\<exists>es. drawArm S ov c y arm ps = Inr es)) \<and>
   (\<forall>es. drawArm S ov c y arm ps = Inr es \<longrightarrow>
      length (filter isHatchFill es) =
        length (filter (\<lambda>b. ov arm b \<and> (gieStain b = Some ''gvar'' \<or> gieStain b = Some ''stalk''))
                  (cytobandList c)))"
proof (intro conjI)
  show "gieStain band = None \<longrightarrow> getCytobandOpacity band = Inl TypeError"
    by (simp add: opacity_None)
  show "\<forall>stain. gieStain band = Some stain \<longrightarrow>
      (\<exists>v. getCytobandOpacity band = Inr v \<and> 0 \<le> v \<and> v \<le> 1 \<and>
         (stain = ''gneg'' \<longrightarrow> v = 0) \<and>
         (\<forall>ds rest. stain = ''gpos'' @ ds @ rest \<and> ds \<noteq> [] \<and> (\<forall>d \<in> set ds. isDigit d) \<and>
             (rest = [] \<or> \<not> isDigit (hd rest)) \<longrightarrow>
            v = max 0 (min 1 (of_nat (parseDigits ds) / 100))) \<and>
         (stain = ''gpos100'' \<or> stain = ''gvar'' \<longrightarrow> v = 1) \<and>
         (stain = ''stalk'' \<longrightarrow> v = 3 / 4) \<and>
         (stain \<noteq> ''gneg'' \<and> stain \<noteq> ''gvar'' \<and> stain \<noteq> ''stalk'' \<and>
          (\<forall>d rest. isDigit d \<longrightarrow> stain \<noteq> ''gpos'' @ d # rest) \<longrightarrow> v = 0))"
    by (intro allI impI) (rule opacity_table)
  show "gieStain band \<noteq> None \<or> \<not> ov arm band \<longrightarrow> (\<exists>es. drawBand S ov y arm ps band = Inr es)"
    by (intro impI) (rule drawBand_returns)
  show "\<forall>es. drawBand S ov y arm ps band = Inr es \<longrightarrow>
      ((\<exists>e \<in> set es. isHatchFill e) \<longleftrightarrow>
         ov arm band \<and> (gieStain band = Some ''gvar'' \<or> gieStain band = Some ''stalk'')) \<and>
      (ov arm band \<longrightarrow>
         length es = (if gieStain band = Some ''gvar'' \<or> gieStain band = Some ''stalk'' then 2 else 1) \<and>
         \<not> isHatchFill (hd es) \<and> filter isHatchFill es = tl es)"
  proof (intro allI impI)
    fix es
    assume run: "drawBand S ov y arm ps band = Inr es"
    note h = hatch_drawBand[OF run]
    have "(\<exists>e \<in> set es. isHatchFill e) \<longleftrightarrow> filter isHatchFill es \<noteq> []"
      by (simp add: filter_empty_conv)
    also have "\<dots> \<longleftrightarrow> ov arm band \<and> (gieStain band = Some ''gvar'' \<or> gieStain band = Some ''stalk'')"
      by (subst h[THEN conjunct1]) simp
    finally show "((\<exists>e \<in> set es. isHatchFill e) \<longleftrightarrow>
         ov arm band \<and> (gieStain band = Some ''gvar'' \<or> gieStain band = Some ''stalk'')) \<and>
      (ov arm band \<longrightarrow>
         length es = (if gieStain band = Some ''gvar'' \<or> gieStain band = Some ''stalk'' then 2 else 1) \<and>
         \<not> isHatchFill (hd es) \<and> filter isHatchFill es = tl es)"
      using h[THEN conjunct2] by (intro conjI)
  qed
  show "(\<forall>b \<in> set (cytobandList c). ov arm b \<longrightarrow> gieStain b \<noteq> None) \<longrightarrow>
      (\<exists>es. drawArm S ov c y arm ps = Inr es)"
    by (intro impI) (rule drawArm_returns)
  show "\<forall>es. drawArm S ov c y arm ps = Inr es \<longrightarrow>
      length (filter isHatchFill es) =
        length (filter (\<lambda>b. ov arm b \<and> (gieStain b = Some ''gvar'' \<or> gieStain b = Some ''stalk''))
                  (cytobandList c))"
    by (intro allI impI) (rule hatch_drawArm)
qed

theorem getCytobandOpacity_table_witness:
  "getCytobandOpacity \<lparr>chr = ''chr1'', start = 0, end' = 100, name = ''p1'', gieStain = Some ''gpos50''\<rparr>
     = Inr (1 / 2) \<and>
   getCytobandOpacity \<lparr>chr = ''chr1'', start = 0, end' = 100, name = ''p1'', gieStain = Some ''gpos150''\<rparr>
     = Inr 1 \<and>
   getCytobandOpacity \<lparr>chr = ''chr1'', start = 0, end' = 100, name = ''p1'', gieStain = Some ''gpos75x''\<rparr>
     = Inr (3 / 4) \<and>
   getCytobandOpacity \<lparr>chr = ''chr1'', start = 0, end' = 100, name = ''p1'', gieStain = Some ''acen''\<rparr>
     = Inr 0 \<and>
   getCytobandOpacity \<lparr>chr = ''chr1'', start = 0, end' = 100, name = ''p1'', gieStain = Some ''gneg''\<rparr>
     = Inr 0 \<and>
   getCytobandOpacity \<lparr>chr = ''chr1'', start = 0, end' = 100, name = ''p1'', gieStain = Some ''gvar''\<rparr>
     = Inr 1 \<and>
   getCytobandOpacity \<lparr>chr = ''chr1'', start = 0, end' = 100, name = ''p1'', gieStain = Some ''stalk''\<rparr>
     = Inr (3 / 4) \<and>
   getCytobandOpacity \<lparr>chr = ''chr1'', start = 0, end' = 100, name = ''p1'', gieStain = None\<rparr>
     = Inl TypeError \<and>
   (\<exists>es. drawBand 100 (\<lambda>arm band. True) 0
            \<lparr>chr = ''chr1'', start = 0, end' = 1000, name = ''chr1''\<rparr>
            \<lparr>height = 5, inGap = 2, cytobandIdeo = Some ''cytoBandIdeo.txt'',
             cytobandHeight = 10, chromosomeBarHeight = 1, labels = [], args = []\<rparr>
            \<lparr>chr = ''chr1'', start = 0, end' = 100, name = ''p1'', gieStain = Some ''stalk''\<rparr>
          = Inr es \<and>
      (\<exists>e \<in> set es. isHatchFill e) \<and> length es = 2 \<and> \<not> isHatchFill (hd es)) \<and>
   (\<exists>es. drawArm 100 (\<lambda>arm band. True)
            \<lparr>chr = ''chr1'', start = 0, end' = 1000, name = ''chr1'',
              bands = [\<lparr>chr = ''chr1'', start = 0, end' = 100, name = ''p1'', gieStain = Some ''gneg''\<rparr>,
                       \<lparr>chr = ''chr1'', start = 100, end' = 200, name = ''p2'', gieStain = Some ''stalk''\<rparr>],
              cytobands = [0, 1], data = Map.empty, centromere = None\<rparr>
            0 \<lparr>chr = ''chr1'', start = 0, end' = 1000, name = ''chr1''\<rparr>
            \<lparr>height = 5, inGap = 2, cytobandIdeo = Some ''cytoBandIdeo.txt'',
             cytobandHeight = 10, chromosomeBarHeight = 1, labels = [], args = []\<rparr>
          = Inr es \<and>
      length (filter isHatchFill es) = 1)"
proof -
  let ?b = "\<lambda>s. \<lparr>chr = ''chr1'', start = 0, end' = 100, name = ''p1'', gieStain = s\<rparr>"
  let ?arm = "\<lparr>chr = ''chr1'', start = 0, end' = 1000, name = ''chr1''\<rparr>"
  let ?ps = "\<lparr>height = 5, inGap = 2, cytobandIdeo = Some ''cytoBandIdeo.txt'',
             cytobandHeight = 10, chromosomeBarHeight = 1, labels = [], args = []\<rparr>"
  let ?ov = "\<lambda>(arm::region) (band::cytoband). True"
  let ?c = "\<lparr>chr = ''chr1'', start = 0, end' = 1000, name = ''chr1'',
              bands = [\<lparr>chr = ''chr1'', start = 0, end' = 100, name = ''p1'', gieStain = Some ''gneg''\<rparr>,
                       \<lparr>chr = ''chr1'', start = 100, end' = 200, name = ''p2'', gieStain = Some ''stalk''\<rparr>],
              cytobands = [0, 1], data = Map.empty, centromere = None\<rparr>"
  let ?R = "\<lambda>(stain::string) (v::rat).
         (stain = ''gneg'' \<longrightarrow> v = 0) \<and>
         (\<forall>ds rest. stain = ''gpos'' @ ds @ rest \<and> ds \<noteq> [] \<and> (\<forall>d \<in> set ds. isDigit d) \<and>
             (rest = [] \<or> \<not> isDigit (hd rest)) \<longrightarrow>
            v = max 0 (min 1 (of_nat (parseDigits ds) / 100))) \<and>
         (stain = ''gpos100'' \<or> stain = ''gvar'' \<longrightarrow> v = 1) \<and>
         (stain = ''stalk'' \<longrightarrow> v = 3 / 4) \<and>
         (stain \<noteq> ''gneg'' \<and> stain \<noteq> ''gvar'' \<and> stain \<noteq> ''stalk'' \<and>
          (\<forall>d rest. isDigit d \<longrightarrow> stain \<noteq> ''gpos'' @ d # rest) \<longrightarrow> v = 0)"
  have row: "\<exists>v. getCytobandOpacity (?b (Some s)) = Inr v \<and> 0 \<le> v \<and> v \<le> 1 \<and> ?R s v" for s
  proof -
    have "\<forall>stain. gieStain (?b (Some s)) = Some stain \<longrightarrow>
      (\<exists>v. getCytobandOpacity (?b (Some s)) = Inr v \<and> 0 \<le> v \<and> v \<le> 1 \<and> ?R stain v)"
      using getCytobandOpacity_table[where band = "?b (Some s)" and ov = ?ov and arm = ?arm
          and S = 100 and y = 0 and ps = ?ps and c = ?c]
      by (elim conjE)
    then show ?thesis by simp
  qed
  have gposI: "getCytobandOpacity (?b (Some (''gpos'' @ ds @ rest)))
      = Inr (max 0 (min 1 (of_nat (parseDigits ds) / 100)))"
    if h: "ds \<noteq> [] \<and> (\<forall>d \<in> set ds. isDigit d) \<and> (rest = [] \<or> \<not> isDigit (hd rest))" for ds rest
  proof -
    from row[of "''gpos'' @ ds @ rest"] obtain v where
      all: "getCytobandOpacity (?b (Some (''gpos'' @ ds @ rest))) = Inr v \<and> 0 \<le> v \<and> v \<le> 1 \<and>
        ?R (''gpos'' @ ds @ rest) v" ..
    have "\<forall>ds' rest'. ''gpos'' @ ds @ rest = ''gpos'' @ ds' @ rest' \<and> ds' \<noteq> [] \<and>
        (\<forall>d \<in> set ds'. isDigit d) \<and> (rest' = [] \<or> \<not> isDigit (hd rest')) \<longrightarrow>
        v = max 0 (min 1 (of_nat (parseDigits ds') / 100))"
      using all by (elim conjE)
    then have "v = max 0 (min 1 (of_nat (parseDigits ds) / 100))"
      using h by (elim allE[of _ ds] allE[of _ rest] impE) simp_all
    then show ?thesis using all by simp
  qed
  have o50: "getCytobandOpacity (?b (Some ''gpos50'')) = Inr (1 / 2)"
    using gposI[of "''50''" "[]"] by (simp add: isDigit_def parseDigits_def digitValue_def)
  have o150: "getCytobandOpacity (?b (Some ''gpos150'')) = Inr 1"
    using gposI[of "''150''" "[]"] by (simp add: isDigit_def parseDigits_def digitValue_def)
  have o75x: "getCytobandOpacity (?b (Some ''gpos75x'')) = Inr (3 / 4)"
    using gposI[of "''75''" "''x''"] by (simp add: isDigit_def parseDigits_def digitValue_def)
  have oacen: "getCytobandOpacity (?b (Some ''acen'')) = Inr 0"
  proof -
    from row[of "''acen''"] obtain v where
      all: "getCytobandOpacity (?b (Some ''acen'')) = Inr v \<and> 0 \<le> v \<and> v \<le> 1 \<and> ?R ''acen'' v" ..
    have "''acen'' \<noteq> ''gneg'' \<and> ''acen'' \<noteq> ''gvar'' \<and> ''acen'' \<noteq> ''stalk'' \<and>
          (\<forall>d rest. isDigit d \<longrightarrow> ''acen'' \<noteq> ''gpos'' @ d # rest) \<longrightarrow> v = 0"
      using all by (elim conjE)
    then have "v = 0" by simp
    then show ?thesis using all by simp
  qed
  have ogneg: "getCytobandOpacity (?b (Some ''gneg'')) = Inr 0"
  proof -
    from row[of "''gneg''"] obtain v where
      all: "getCytobandOpacity (?b (Some ''gneg'')) = Inr v \<and> 0 \<le> v \<and> v \<le> 1 \<and> ?R ''gneg'' v" ..
    have "''gneg'' = ''gneg'' \<longrightarrow> v = 0" using all by (elim conjE)
    then show ?thesis using all by simp
  qed
  have ogvar: "getCytobandOpacity (?b (Some ''gvar'')) = Inr 1"
  proof -
    from row[of "''gvar''"] obtain v where
      all: "getCytobandOpacity (?b (Some ''gvar'')) = Inr v \<and> 0 \<le> v \<and> v \<le> 1 \<and> ?R ''gvar'' v" ..
    have "''gvar'' = ''gpos100'' \<or> ''gvar'' = ''gvar'' \<longrightarrow> v = 1" using all by (elim conjE)
    then show ?thesis using all by simp
  qed
  have ostalk: "getCytobandOpacity (?b (Some ''stalk'')) = Inr (3 / 4)"
  proof -
    from row[of "''stalk''"] obtain v where
      all: "getCytobandOpacity (?b (Some ''stalk'')) = Inr v \<and> 0 \<le> v \<and> v \<le> 1 \<and> ?R ''stalk'' v" ..
    have "''stalk'' = ''stalk'' \<longrightarrow> v = 3 / 4" using all by (elim conjE)
    then show ?thesis using all by simp
  qed
  have onone: "getCytobandOpacity (?b None) = Inl TypeError"
  proof -
    have "gieStain (?b None) = None \<longrightarrow> getCytobandOpacity (?b None) = Inl TypeError"
      using getCytobandOpacity_table[where band = "?b None" and ov = ?ov and arm = ?arm
          and S = 100 and y = 0 and ps = ?ps and c = ?c]
      by (elim conjE)
    then show ?thesis by simp
  qed
  have band: "\<exists>es. drawBand 100 ?ov 0 ?arm ?ps (?b (Some ''stalk'')) = Inr es \<and>
      (\<exists>e \<in> set es. isHatchFill e) \<and> length es = 2 \<and> \<not> isHatchFill (hd es)"
  proof -
    note T = getCytobandOpacity_table[where band = "?b (Some ''stalk'')" and ov = ?ov and arm = ?arm
          and S = 100 and y = 0 and ps = ?ps and c = ?c]
    have "gieStain (?b (Some ''stalk'')) \<noteq> None \<or> \<not> ?ov ?arm (?b (Some ''stalk'')) \<longrightarrow>
        (\<exists>es. drawBand 100 ?ov 0 ?arm ?ps (?b (Some ''stalk'')) = Inr es)"
      using T by (elim conjE)
    then obtain es where run: "drawBand 100 ?ov 0 ?arm ?ps (?b (Some ''stalk'')) = Inr es"
      by auto
    have "\<forall>es. drawBand 100 ?ov 0 ?arm ?ps (?b (Some ''stalk'')) = Inr es \<longrightarrow>
      ((\<exists>e \<in> set es. isHatchFill e) \<longleftrightarrow>
         ?ov ?arm (?b (Some ''stalk'')) \<and> (gieStain (?b (Some ''stalk'')) = Some ''gvar'' \<or>
            gieStain (?b (Some ''stalk'')) = Some ''stalk'')) \<and>
      (?ov ?arm (?b (Some ''stalk'')) \<longrightarrow>
         length es = (if gieStain (?b (Some ''stalk'')) = Some ''gvar'' \<or>
                         gieStain (?b (Some ''stalk'')) = Some ''stalk'' then 2 else 1) \<and>
         \<not> isHatchFill (hd es) \<and> filter isHatchFill es = tl es)"
      using T by (elim conjE)
    then have "((\<exists>e \<in> set es. isHatchFill e) \<longleftrightarrow>
         ?ov ?arm (?b (Some ''stalk'')) \<and> (gieStain (?b (Some ''stalk'')) = Some ''gvar'' \<or>
            gieStain (?b (Some ''stalk'')) = Some ''stalk'')) \<and>
      (?ov ?arm (?b (Some ''stalk'')) \<longrightarrow>
         length es = (if gieStain (?b (Some ''stalk'')) = Some ''gvar'' \<or>
                         gieStain (?b (Some ''stalk'')) = Some ''stalk'' then 2 else 1) \<and>
         \<not> isHatchFill (hd es) \<and> filter isHatchFill es = tl es)"
      using run by (elim allE[of _ es] impE)
    then have "(\<exists>e \<in> set es. isHatchFill e) \<and> length es = 2 \<and> \<not> isHatchFill (hd es)"
      by simp
    then show ?thesis using run by (intro exI[of _ es] conjI) simp_all
  qed
  have arm: "\<exists>es. drawArm 100 ?ov ?c 0 ?arm ?ps = Inr es \<and> length (filter isHatchFill es) = 1"
  proof -
    note T = getCytobandOpacity_table[where band = "?b (Some ''stalk'')" and ov = ?ov and arm = ?arm
          and S = 100 and y = 0 and ps = ?ps and c = ?c]
    have cl: "cytobandList ?c =
        [\<lparr>chr = ''chr1'', start = 0, end' = 100, name = ''p1'', gieStain = Some ''gneg''\<rparr>,
         \<lparr>chr = ''chr1'', start = 100, end' = 200, name = ''p2'', gieStain = Some ''stalk''\<rparr>]"
      by (simp add: cytobandList_def)
    have "(\<forall>b \<in> set (cytobandList ?c). ?ov ?arm b \<longrightarrow> gieStain b \<noteq> None) \<longrightarrow>
        (\<exists>es. drawArm 100 ?ov ?c 0 ?arm ?ps = Inr es)"
      using T by (elim conjE)
    then obtain es where run: "drawArm 100 ?ov ?c 0 ?arm ?ps = Inr es"
      unfolding cl by auto
    have "\<forall>es. drawArm 100 ?ov ?c 0 ?arm ?ps = Inr es \<longrightarrow>
      length (filter isHatchFill es) =
        length (filter (\<lambda>b. ?ov ?arm b \<and> (gieStain b = Some ''gvar'' \<or> gieStain b = Some ''stalk''))
                  (cytobandList ?c))"
      using T by (elim conjE)
    then have "length (filter isHatchFill es) =
        length (filter (\<lambda>b. ?ov ?arm b \<and> (gieStain b = Some ''gvar'' \<or> gieStain b = Some ''stalk''))
                  (cytobandList ?c))"
      using run by (elim allE[of _ es] impE)
    then have "length (filter isHatchFill es) = 1" unfolding cl by simp
    then show ?thesis using run by (intro exI[of _ es] conjI)
  qed
  show ?thesis by (intro conjI o50 o150 o75x oacen ogneg ogvar ostalk onone band arm)
qed

text \<open>
  C9 as stated gives 0 for every unrecognized stain. The stain \<open>gpos75x\<close> is not of
  the form \<open>gpos\<close> and a number, yet the pattern is not anchored at the end and the
  code returns 0.75.
\<close>

theorem getCytobandOpacity_unanchored_counterexample:
  "getCytobandOpacity
     \<lparr>chr = ''chr1'', start = 0, end' = 100, name = ''p1'', gieStain = Some ''gpos75x''\<rparr>
   = Inr (3 / 4)"
  by (simp add: getCytobandOpacity_def matchGpos_def isDigit_def parseDigits_def digitValue_def Let_def)

subsection \<open>Reading interval files\<close>

lemma addBedData_null: "addBedData S None label cs = Inr (None, cs)"
  by (simp add: addBedData_def)

lemma addBedData_empty: "addBedData S (Some []) label cs = Inr (None, cs)"
  by (simp add: addBedData_def)

lemma addBedData_result:
  "addBedData S f label cs = Inr (r, cs') \<Longrightarrow> (r \<noteq> None) = (f \<noteq> None \<and> f \<noteq> Some [])"
  by (auto simp: addBedData_def split: option.splits if_splits sum.splits)

lemma readBedFiles_results:
  "readBedFiles S ps i fs cs = Inr (rs, cs') \<Longrightarrow>
   map (\<lambda>r. r \<noteq> None) rs = map (\<lambda>f. f \<noteq> None \<and> f \<noteq> Some []) fs"
proof (induction fs arbitrary: i cs rs)
  case Nil
  then show ?case by simp
next
  case (Cons f fs)
  from Cons.prems obtain r cs1 rs1 where
    a: "addBedData S f (labelAt ps i) cs = Inr (r, cs1)"
    and b: "readBedFiles S ps (Suc i) fs cs1 = Inr (rs1, cs')"
    and c: "rs = r # rs1"
    by (auto split: sum.splits prod.splits)
  show ?case using addBedData_result[OF a] Cons.IH[OF b] c by simp
qed

lemma readBedFiles_skip:
  "readBedFiles S ps i (pre @ Some [] # post) cs = readBedFiles S ps i (pre @ None # post) cs"
proof (induction pre arbitrary: i cs)
  case Nil
  show ?case by (simp add: addBedData_null addBedData_empty)
next
  case (Cons f pre)
  show ?case by (simp add: Cons.IH split: sum.splits prod.splits)
qed

lemma filter_length_map:
  "map P xs = map Q ys \<Longrightarrow> length (filter P xs) = length (filter Q ys)"
proof (induction xs arbitrary: ys)
  case Nil
  then show ?case by simp
next
  case (Cons x xs)
  then obtain y ys' where "ys = y # ys'" by (cases ys) auto
  then show ?case using Cons by auto
qed

text \<open>
  C10. \<open>addBedData\<close> on the empty string returns \<open>null\<close> exactly as on a file
  that could not be read: no label is initialised and the collection is unchanged. In
  \<open>drawGenomePlot\<close> an empty file can be replaced by a failed read without changing
  the valid datasets or the entry height, and the number of valid datasets is the
  number of files that were read and are not empty.
\<close>

theorem addBedData_empty_like_failed_read:
  "addBedData S (Some []) label cs = Inr (None, cs) \<and>
   addBedData S None label cs = Inr (None, cs) \<and>
   validBedFiles S ps (pre @ Some [] # post) cs = validBedFiles S ps (pre @ None # post) cs \<and>
   svgEntryHeight S ps (pre @ Some [] # post) cs = svgEntryHeight S ps (pre @ None # post) cs \<and>
   (\<forall>valid cs'. validBedFiles S ps bedFiles cs = Inr (valid, cs') \<longrightarrow>
      length valid = length (filter (\<lambda>f. f \<noteq> None \<and> f \<noteq> Some []) bedFiles) \<and>
      svgEntryHeight S ps bedFiles cs =
        Inr (of_nat (length (filter (\<lambda>f. f \<noteq> None \<and> f \<noteq> Some []) bedFiles))
               * (height ps + inGap ps) +
             (if cytobandIdeo ps \<noteq> None \<and> cytobandIdeo ps \<noteq> Some []
              then cytobandHeight ps else chromosomeBarHeight ps)))"
proof -
  have v: "validBedFiles S ps (pre @ Some [] # post) cs = validBedFiles S ps (pre @ None # post) cs"
    by (simp add: validBedFiles_def readBedFiles_skip)
  have h: "svgEntryHeight S ps (pre @ Some [] # post) cs = svgEntryHeight S ps (pre @ None # post) cs"
    by (simp add: svgEntryHeight_def v)
  have n: "length valid = length (filter (\<lambda>f. f \<noteq> None \<and> f \<noteq> Some []) bedFiles) \<and>
      svgEntryHeight S ps bedFiles cs =
        Inr (of_nat (length (filter (\<lambda>f. f \<noteq> None \<and> f \<noteq> Some []) bedFiles))
               * (height ps + inGap ps) +
             (if cytobandIdeo ps \<noteq> None \<and> cytobandIdeo ps \<noteq> Some []
              then cytobandHeight ps else chromosomeBarHeight ps))"
    if run: "validBedFiles S ps bedFiles cs = Inr (valid, cs')" for valid cs'
  proof -
    from run obtain rs where
      r: "readBedFiles S ps 0 bedFiles cs = Inr (rs, cs')"
      and f: "valid = filter (\<lambda>r. r \<noteq> None) rs"
      by (auto simp: validBedFiles_def split: sum.splits prod.splits)
    have len: "length valid = length (filter (\<lambda>f. f \<noteq> None \<and> f \<noteq> Some []) bedFiles)"
      unfolding f by (rule filter_length_map[OF readBedFiles_results[OF r]])
    show ?thesis using len run by (simp add: svgEntryHeight_def)
  qed
  show ?thesis using addBedData_empty addBedData_null v h n by blast
qed

theorem addBedData_empty_like_failed_read_witness:
  "\<exists>valid cs'.
     validBedFiles 100
       \<lparr>height = 5, inGap = 2, cytobandIdeo = None, cytobandHeight = 10,
        chromosomeBarHeight = 1, labels = [''default''], args = [''a.bed'', ''b.bed'']\<rparr>
       [Some ''chr1 250 350'', Some []]
       \<lparr>objects = [Chromosome ''chr1'' 1000], array = [0], map' = [''chr1'' \<mapsto> 0]\<rparr>
       = Inr (valid, cs') \<and>
     length valid = 1 \<and>
     svgEntryHeight 100
       \<lparr>height = 5, inGap = 2, cytobandIdeo = None, cytobandHeight = 10,
        chromosomeBarHeight = 1, labels = [''default''], args = [''a.bed'', ''b.bed'']\<rparr>
       [Some ''chr1 250 350'', Some []]
       \<lparr>objects = [Chromosome ''chr1'' 1000], array = [0], map' = [''chr1'' \<mapsto> 0]\<rparr>
       = Inr 8"
proof -
  let ?ps = "\<lparr>height = 5, inGap = 2, cytobandIdeo = None, cytobandHeight = 10,
        chromosomeBarHeight = 1, labels = [''default''], args = [''a.bed'', ''b.bed'']\<rparr>"
  let ?fs = "[Some ''chr1 250 350'', Some []]"
  let ?cs = "\<lparr>objects = [Chromosome ''chr1'' 1000], array = [0], map' = [''chr1'' \<mapsto> 0]\<rparr>"
  have "\<exists>v c. validBedFiles 100 ?ps ?fs ?cs = Inr (v, c)"
    by (simp add: validBedFiles_def addBedData_def labelAt_def trim_def isSpace_def addBedLine_def
      parseIntAt_def parseInt_def isDigit_def parseDigits_def digitValue_def Let_def
      initDataAll_def initData_def Chromosome_def addData_def addDataLoop.simps jsRound_def
      splitSpaces.simps)
  then obtain v c where run: "validBedFiles 100 ?ps ?fs ?cs = Inr (v, c)" by blast
  have "\<forall>valid cs'. validBedFiles 100 ?ps ?fs ?cs = Inr (valid, cs') \<longrightarrow>
      length valid = length (filter (\<lambda>f. f \<noteq> None \<and> f \<noteq> Some []) ?fs) \<and>
      svgEntryHeight 100 ?ps ?fs ?cs =
        Inr (of_nat (length (filter (\<lambda>f. f \<noteq> None \<and> f \<noteq> Some []) ?fs))
               * (height ?ps + inGap ?ps) +
             (if cytobandIdeo ?ps \<noteq> None \<and> cytobandIdeo ?ps \<noteq> Some []
              then cytobandHeight ?ps else chromosomeBarHeight ?ps))"
    using addBedData_empty_like_failed_read[of 100 "''default''" ?cs ?ps "[]" "[]" ?fs]
    by (elim conjE)
  then have "length v = length (filter (\<lambda>f. f \<noteq> None \<and> f \<noteq> Some []) ?fs) \<and>
      svgEntryHeight 100 ?ps ?fs ?cs =
        Inr (of_nat (length (filter (\<lambda>f. f \<noteq> None \<and> f \<noteq> Some []) ?fs))
               * (height ?ps + inGap ?ps) +
             (if cytobandIdeo ?ps \<noteq> None \<and> cytobandIdeo ?ps \<noteq> Some []
              then cytobandHeight ?ps else chromosomeBarHeight ?ps))"
    using run by blast
  then have "length v = 1 \<and> svgEntryHeight 100 ?ps ?fs ?cs = Inr 8" by simp
  then show ?thesis using run by blast
qed

end
